theory Spec2Isabelle
  imports
    Main
    "HOL-Library.Word"
    "HOL-Library.Finite_Map"
    "HOL-Library.Char_ord"
    "HOL-Library.List_Lexorder"
begin

unbundle bit_operations_syntax

section \<open>The operating system as seen by filecmpModified.py\<close>

text \<open>
  The module touches the outside world through five library calls only:
  \<^verbatim>\<open>os.stat\<close>, \<^verbatim>\<open>os.listdir\<close>, \<^verbatim>\<open>open(..., 'rb')\<close> followed by \<^verbatim>\<open>read\<close>,
  \<^verbatim>\<open>os.path.join\<close> and \<^verbatim>\<open>os.path.normcase\<close>.  They are not part of the module, so
  they are the fields of a record that every function takes as its first argument.
  A call that raises \<^verbatim>\<open>OSError\<close> is a field that returns \<open>None\<close>.
  \<open>error\<close> is what the library calls raise, \<open>key_error\<close> what a dictionary lookup
  raises, \<open>exn\<close> either of them.

  A leading underscore of a Python name is written \<open>u_\<close> (\<^verbatim>\<open>_sig\<close> is \<open>u_sig\<close>).
\<close>

type_synonym path = string
type_synonym byte = "8 word"

datatype error = OSError

datatype key_error = KeyError

datatype exn = Raised_OSError error | Raised_KeyError key_error

record stat_result =
  st_mode :: nat
  st_size :: nat
  st_mtime :: int

record os =
  os_stat :: "path \<Rightarrow> stat_result option"
  os_listdir :: "path \<Rightarrow> string list option"
  os_open :: "path \<Rightarrow> byte list option"
  path_join :: "path \<Rightarrow> string \<Rightarrow> path"
  path_normcase :: "string \<Rightarrow> string"

text \<open>The constants of the \<^verbatim>\<open>stat\<close> module (octal 170000, 100000, 040000).\<close>

definition S_IFMT :: "nat \<Rightarrow> nat" where
  "S_IFMT mode = mode AND 61440"

definition S_IFREG :: nat where
  "S_IFREG = 32768"

definition S_IFDIR :: nat where
  "S_IFDIR = 16384"

definition S_ISDIR :: "nat \<Rightarrow> bool" where
  "S_ISDIR mode = (S_IFMT mode = S_IFDIR)"

definition S_ISREG :: "nat \<Rightarrow> bool" where
  "S_ISREG mode = (S_IFMT mode = S_IFREG)"

section \<open>cmp: the cached file comparator\<close>

type_synonym signature = "nat \<times> nat \<times> int"
type_synonym cache_key = "path \<times> path \<times> signature \<times> signature"
type_synonym cache = "(cache_key, bool) fmap"

definition BUFSIZE :: nat where
  "BUFSIZE = 8 * 1024"

definition clear_cache :: "cache \<Rightarrow> cache" where
  "clear_cache c = fmempty"

definition u_sig :: "stat_result \<Rightarrow> signature" where
  "u_sig st = (S_IFMT (st_mode st), st_size st, st_mtime st)"

text \<open>
  The loop of \<^verbatim>\<open>_do_cmp\<close>.  The arguments are the unread rests of the two streams;
  \<^verbatim>\<open>fp.read(bufsize)\<close> returns the next \<open>bufsize\<close> bytes, fewer at the end of the
  file and none after it.
\<close>

function do_cmp_loop :: "byte list \<Rightarrow> byte list \<Rightarrow> bool" where
  "do_cmp_loop r1 r2 =
     (let b1 = take BUFSIZE r1; b2 = take BUFSIZE r2
      in if b1 \<noteq> b2 then False
         else if b1 = [] then True
         else do_cmp_loop (drop BUFSIZE r1) (drop BUFSIZE r2))"
  by pat_completeness auto
termination
proof (relation "measure (\<lambda>(r1, r2). length r1)")
  show "wf (measure (\<lambda>(r1, r2). length r1))" by simp
next
  fix r1 r2 :: "byte list" and b1 b2
  assume "b1 = take BUFSIZE r1" and "b2 = take BUFSIZE r2"
    and "\<not> b1 \<noteq> b2" and "b1 \<noteq> []"
  then have "r1 \<noteq> []" by auto
  then show "((drop BUFSIZE r1, drop BUFSIZE r2), (r1, r2)) \<in> measure (\<lambda>(r1, r2). length r1)"
    by (simp add: BUFSIZE_def)
qed

declare do_cmp_loop.simps [simp del]

definition u_do_cmp :: "os \<Rightarrow> path \<Rightarrow> path \<Rightarrow> error + bool" where
  "u_do_cmp env f1 f2 =
     (case os_open env f1 of
        None \<Rightarrow> Inl OSError
      | Some d1 \<Rightarrow>
          (case os_open env f2 of
             None \<Rightarrow> Inl OSError
           | Some d2 \<Rightarrow> Inr (do_cmp_loop d1 d2)))"

text \<open>
  \<^verbatim>\<open>cmp\<close> reads and writes the module-level dictionary \<^verbatim>\<open>_cache\<close>; the model takes
  the dictionary and returns it with the result.  A raised \<^verbatim>\<open>OSError\<close> leaves the
  dictionary as it was.
\<close>

definition cmp :: "os \<Rightarrow> path \<Rightarrow> path \<Rightarrow> bool \<Rightarrow> cache \<Rightarrow> (error + bool) \<times> cache" where
  "cmp env f1 f2 shallow c =
     (case os_stat env f1 of
        None \<Rightarrow> (Inl OSError, c)
      | Some st1 \<Rightarrow>
          (case os_stat env f2 of
             None \<Rightarrow> (Inl OSError, c)
           | Some st2 \<Rightarrow>
               (let s1 = u_sig st1; s2 = u_sig st2
                in if fst s1 \<noteq> S_IFREG \<or> fst s2 \<noteq> S_IFREG then (Inr False, c)
                   else if shallow \<and> s1 = s2 then (Inr True, c)
                   else if fst (snd s1) \<noteq> fst (snd s2) then (Inr False, c)
                   else (case fmlookup c (f1, f2, s1, s2) of
                           Some outcome \<Rightarrow> (Inr outcome, c)
                         | None \<Rightarrow>
                             (case u_do_cmp env f1 f2 of
                                Inl e \<Rightarrow> (Inl e, c)
                              | Inr outcome \<Rightarrow>
                                  (let c1 = (if fcard (fmdom c) > 100 then clear_cache c else c)
                                   in (Inr outcome, fmupd (f1, f2, s1, s2) outcome c1)))))))"

text \<open>
  \<^verbatim>\<open>_cmp\<close> turns the outcome into the index of the list that receives the name:
  \<^verbatim>\<open>not abs(cmp(a, b, sh))\<close> is \<^verbatim>\<open>False\<close> (index 0) for equal files and \<^verbatim>\<open>True\<close>
  (index 1) for different ones; an \<^verbatim>\<open>OSError\<close> gives 2.
\<close>

definition u_cmp :: "os \<Rightarrow> path \<Rightarrow> path \<Rightarrow> bool \<Rightarrow> cache \<Rightarrow> nat \<times> cache" where
  "u_cmp env a b sh c =
     (case cmp env a b sh c of
        (Inr r, c1) \<Rightarrow> (of_bool (\<bar>of_bool r :: int\<bar> = 0), c1)
      | (Inl OSError, c1) \<Rightarrow> (2, c1))"

type_synonym name_lists = "string list \<times> string list \<times> string list"

text \<open>\<^verbatim>\<open>res[i].append(x)\<close> on a tuple of three lists; \<open>i\<close> is 0, 1 or 2.\<close>

definition res_append :: "nat \<Rightarrow> string \<Rightarrow> name_lists \<Rightarrow> name_lists" where
  "res_append i x res =
     (case res of (r0, r1, r2) \<Rightarrow>
        if i = 0 then (r0 @ [x], r1, r2)
        else if i = 1 then (r0, r1 @ [x], r2)
        else (r0, r1, r2 @ [x]))"

fun cmpfiles_loop ::
  "os \<Rightarrow> path \<Rightarrow> path \<Rightarrow> bool \<Rightarrow> string list \<Rightarrow> name_lists \<Rightarrow> cache \<Rightarrow> name_lists \<times> cache" where
  "cmpfiles_loop env a b sh [] res c = (res, c)"
| "cmpfiles_loop env a b sh (x # xs) res c =
     (let ax = path_join env a x;
          bx = path_join env b x;
          (i, c1) = u_cmp env ax bx sh c
      in cmpfiles_loop env a b sh xs (res_append i x res) c1)"

definition cmpfiles ::
  "os \<Rightarrow> path \<Rightarrow> path \<Rightarrow> string list \<Rightarrow> bool \<Rightarrow> cache \<Rightarrow> name_lists \<times> cache" where
  "cmpfiles env a b common_names sh c = cmpfiles_loop env a b sh common_names ([], [], []) c"

definition u_filter :: "string list \<Rightarrow> string list \<Rightarrow> string list" where
  "u_filter flist skip = filter (\<lambda>x. x \<notin> set skip) flist"

section \<open>dircmp: the directory classifier\<close>

definition DEFAULT_IGNORES :: "string list" where
  "DEFAULT_IGNORES =
     [''RCS'', ''CVS'', ''tags'', ''.git'', ''.hg'', ''.bzr'', ''_darcs'', ''__pycache__'']"

definition curdir :: string where
  "curdir = ''.''"

definition pardir :: string where
  "pardir = ''..''"

record dircmp =
  left :: path
  right :: path
  hide :: "string list"
  ignore :: "string list"

definition dircmp_init ::
  "path \<Rightarrow> path \<Rightarrow> string list option \<Rightarrow> string list option \<Rightarrow> dircmp" where
  "dircmp_init a b ignore_arg hide_arg =
     \<lparr>left = a, right = b,
      hide = (case hide_arg of None \<Rightarrow> [curdir, pardir] | Some h \<Rightarrow> h),
      ignore = (case ignore_arg of None \<Rightarrow> DEFAULT_IGNORES | Some i \<Rightarrow> i)\<rparr>"

text \<open>
  \<^verbatim>\<open>phase0\<close>: the two listings, filtered and sorted.  Python orders strings by code
  point, shorter prefix first: the lexicographic order on \<open>char list\<close>.
\<close>

definition phase0 :: "os \<Rightarrow> dircmp \<Rightarrow> error + (string list \<times> string list)" where
  "phase0 env d =
     (case os_listdir env (left d) of
        None \<Rightarrow> Inl OSError
      | Some l \<Rightarrow>
          (case os_listdir env (right d) of
             None \<Rightarrow> Inl OSError
           | Some r \<Rightarrow>
               Inr (sort (u_filter l (hide d @ ignore d)),
                    sort (u_filter r (hide d @ ignore d)))))"

text \<open>
  A Python dictionary that is iterated is an association list in insertion order:
  assigning to a key that is present keeps its place and replaces its value, which is
  what \<open>AList.update\<close> does.  \<^verbatim>\<open>dict(zip(ks, vs))\<close> inserts the pairs from left to right.
\<close>

definition dict_zip :: "'k list \<Rightarrow> 'v list \<Rightarrow> ('k \<times> 'v) list" where
  "dict_zip ks vs = fold (\<lambda>(k, v) d. AList.update k v d) (zip ks vs) []"

definition dict_keys :: "('k \<times> 'v) list \<Rightarrow> 'k list" where
  "dict_keys d = map fst d"

definition dict_contains :: "('k \<times> 'v) list \<Rightarrow> 'k \<Rightarrow> bool" where
  "dict_contains d k = (map_of d k \<noteq> None)"

definition dict_getitem :: "('k \<times> 'v) list \<Rightarrow> 'k \<Rightarrow> key_error + 'v" where
  "dict_getitem d k = (case map_of d k of None \<Rightarrow> Inl KeyError | Some v \<Rightarrow> Inr v)"

text \<open>\<^verbatim>\<open>list(map(f, xs))\<close> for an \<open>f\<close> that may raise: the first error ends the call.\<close>

fun map_raise :: "('a \<Rightarrow> key_error + 'b) \<Rightarrow> 'a list \<Rightarrow> key_error + 'b list" where
  "map_raise f [] = Inr []"
| "map_raise f (x # xs) =
     (case f x of
        Inl e \<Rightarrow> Inl e
      | Inr y \<Rightarrow> (case map_raise f xs of Inl e \<Rightarrow> Inl e | Inr ys \<Rightarrow> Inr (y # ys)))"

text \<open>\<^verbatim>\<open>phase1\<close> returns \<^verbatim>\<open>(common, left_only, right_only)\<close>.\<close>

definition phase1 :: "os \<Rightarrow> string list \<Rightarrow> string list \<Rightarrow> key_error + name_lists" where
  "phase1 env left_list right_list =
     (let a = dict_zip (map (path_normcase env) left_list) left_list;
          b = dict_zip (map (path_normcase env) right_list) right_list
      in case map_raise (dict_getitem a) (filter (dict_contains b) (dict_keys a)) of
           Inl e \<Rightarrow> Inl e
         | Inr cm \<Rightarrow>
             (case map_raise (dict_getitem a)
                     (filter (\<lambda>k. \<not> dict_contains b k) (dict_keys a)) of
                Inl e \<Rightarrow> Inl e
              | Inr lo \<Rightarrow>
                  (case map_raise (dict_getitem b)
                          (filter (\<lambda>k. \<not> dict_contains a k) (dict_keys b)) of
                     Inl e \<Rightarrow> Inl e
                   | Inr ro \<Rightarrow> Inr (cm, lo, ro))))"

text \<open>
  \<^verbatim>\<open>phase2\<close> returns \<^verbatim>\<open>(common_dirs, common_files, common_funny)\<close>.  The flag
  \<^verbatim>\<open>ok\<close> of the source is 1 exactly when both calls of \<^verbatim>\<open>os.stat\<close> return.
\<close>

definition phase2_step :: "os \<Rightarrow> dircmp \<Rightarrow> string \<Rightarrow> name_lists \<Rightarrow> name_lists" where
  "phase2_step env d x acc =
     (case acc of (dirs, files, funny) \<Rightarrow>
        (let a_path = path_join env (left d) x;
             b_path = path_join env (right d) x
         in case os_stat env a_path of
              None \<Rightarrow> (dirs, files, funny @ [x])
            | Some a_stat \<Rightarrow>
                (case os_stat env b_path of
                   None \<Rightarrow> (dirs, files, funny @ [x])
                 | Some b_stat \<Rightarrow>
                     (let a_type = S_IFMT (st_mode a_stat);
                          b_type = S_IFMT (st_mode b_stat)
                      in if a_type \<noteq> b_type then (dirs, files, funny @ [x])
                         else if S_ISDIR a_type then (dirs @ [x], files, funny)
                         else if S_ISREG a_type then (dirs, files @ [x], funny)
                         else (dirs, files, funny @ [x])))))"

fun phase2_loop :: "os \<Rightarrow> dircmp \<Rightarrow> string list \<Rightarrow> name_lists \<Rightarrow> name_lists" where
  "phase2_loop env d [] acc = acc"
| "phase2_loop env d (x # xs) acc = phase2_loop env d xs (phase2_step env d x acc)"

definition phase2 :: "os \<Rightarrow> dircmp \<Rightarrow> string list \<Rightarrow> name_lists" where
  "phase2 env d cm = phase2_loop env d cm ([], [], [])"

text \<open>\<^verbatim>\<open>phase3\<close> returns \<^verbatim>\<open>(same_files, diff_files, funny_files)\<close>.\<close>

definition phase3 :: "os \<Rightarrow> dircmp \<Rightarrow> string list \<Rightarrow> cache \<Rightarrow> name_lists \<times> cache" where
  "phase3 env d files c = cmpfiles env (left d) (right d) files False c"

text \<open>
  The attributes of a \<^verbatim>\<open>dircmp\<close> object are computed on first access by
  \<^verbatim>\<open>__getattr__\<close>, each phase asking for the attributes of the phase before it.
  \<open>dircmp_attrs\<close> is the object after every attribute up to \<^verbatim>\<open>funny_files\<close> has been
  read; an exception that a phase does not catch ends the computation.
\<close>

record attrs =
  left_list :: "string list"
  right_list :: "string list"
  common :: "string list"
  left_only :: "string list"
  right_only :: "string list"
  common_dirs :: "string list"
  common_files :: "string list"
  common_funny :: "string list"
  same_files :: "string list"
  diff_files :: "string list"
  funny_files :: "string list"

definition dircmp_attrs :: "os \<Rightarrow> dircmp \<Rightarrow> cache \<Rightarrow> (exn + attrs) \<times> cache" where
  "dircmp_attrs env d c =
     (case phase0 env d of
        Inl e \<Rightarrow> (Inl (Raised_OSError e), c)
      | Inr (ll, rl) \<Rightarrow>
          (case phase1 env ll rl of
             Inl e \<Rightarrow> (Inl (Raised_KeyError e), c)
           | Inr (cm, lo, ro) \<Rightarrow>
               (case phase2 env d cm of (dirs, files, funny) \<Rightarrow>
                  (case phase3 env d files c of ((same, diff, ffiles), c1) \<Rightarrow>
                     (Inr \<lparr>left_list = ll, right_list = rl,
                           common = cm, left_only = lo, right_only = ro,
                           common_dirs = dirs, common_files = files, common_funny = funny,
                           same_files = same, diff_files = diff, funny_files = ffiles\<rparr>,
                      c1)))))"


section \<open>Notions used to state the properties\<close>

text \<open>
  A cache is coherent with a file system when every entry whose key carries the
  present signatures of its two paths holds what \<^verbatim>\<open>_do_cmp\<close> returns on them now.
  The empty cache is coherent, and \<open>cmp\<close> keeps a coherent cache coherent.
\<close>

definition cache_ok :: "os \<Rightarrow> cache \<Rightarrow> bool" where
  "cache_ok env c \<longleftrightarrow>
     (\<forall>f1 f2 st1 st2 v.
        os_stat env f1 = Some st1 \<longrightarrow>
        os_stat env f2 = Some st2 \<longrightarrow>
        fmlookup c (f1, f2, u_sig st1, u_sig st2) = Some v \<longrightarrow>
        u_do_cmp env f1 f2 = Inr v)"

text \<open>A sequence of calls of \<open>cmp\<close> on one file system, the cache handed from call to call.\<close>

fun cmp_all :: "os \<Rightarrow> (path \<times> path \<times> bool) list \<Rightarrow> cache \<Rightarrow> (error + bool) list \<times> cache" where
  "cmp_all env [] c = ([], c)"
| "cmp_all env ((f1, f2, sh) # calls) c =
     (case cmp env f1 f2 sh c of (r, c1) \<Rightarrow>
        (case cmp_all env calls c1 of (rs, c2) \<Rightarrow> (r # rs, c2)))"

text \<open>
  The cache policy in the words of the specification: store the result, then drop the
  whole cache if its size exceeds 100.
\<close>

definition spec_store_then_drop :: "cache_key \<Rightarrow> bool \<Rightarrow> cache \<Rightarrow> cache" where
  "spec_store_then_drop k v c =
     (let c1 = fmupd k v c in if fcard (fmdom c1) > 100 then fmempty else c1)"

text \<open>
  The outcomes of \<open>cmp\<close> during one run of \<open>cmpfiles\<close>, one for each name, each call
  made with the cache that the calls before it left behind; and the names of a list
  whose outcome is a given one.
\<close>

fun cmp_trace :: "os \<Rightarrow> path \<Rightarrow> path \<Rightarrow> bool \<Rightarrow> string list \<Rightarrow> cache \<Rightarrow> (error + bool) list" where
  "cmp_trace env a b sh [] c = []"
| "cmp_trace env a b sh (x # xs) c =
     (case cmp env (path_join env a x) (path_join env b x) sh c of
        (r, c1) \<Rightarrow> r # cmp_trace env a b sh xs c1)"

definition names_with :: "'r \<Rightarrow> string list \<Rightarrow> 'r list \<Rightarrow> string list" where
  "names_with r names trace = map fst (filter (\<lambda>(x, r'). r' = r) (zip names trace))"

text \<open>The outcome of comparing one name of two directories on an empty cache.\<close>

definition fresh_cmp :: "os \<Rightarrow> path \<Rightarrow> path \<Rightarrow> bool \<Rightarrow> string \<Rightarrow> error + bool" where
  "fresh_cmp env a b sh x = fst (cmp env (path_join env a x) (path_join env b x) sh fmempty)"

text \<open>
  A name has type \<open>t\<close> on both sides when both paths can be stat'd and both type tags
  are \<open>t\<close>.
\<close>

definition both_type :: "os \<Rightarrow> dircmp \<Rightarrow> nat \<Rightarrow> string \<Rightarrow> bool" where
  "both_type env d t x =
     (case os_stat env (path_join env (left d) x) of
        None \<Rightarrow> False
      | Some sa \<Rightarrow>
          (case os_stat env (path_join env (right d) x) of
             None \<Rightarrow> False
           | Some sb \<Rightarrow> S_IFMT (st_mode sa) = t \<and> S_IFMT (st_mode sb) = t))"

text \<open>The names of a listing that are neither hidden nor ignored.\<close>

definition filtered_names :: "dircmp \<Rightarrow> string list \<Rightarrow> string set" where
  "filtered_names d listing = {x \<in> set listing. x \<notin> set (hide d) \<union> set (ignore d)}"

section \<open>Example file systems\<close>

text \<open>
  \<^verbatim>\<open>posixpath.join\<close> for two components and \<^verbatim>\<open>posixpath.normcase\<close>, and the lower-casing
  \<^verbatim>\<open>ntpath.normcase\<close> on ASCII names; they fill the record in the examples.
\<close>

definition posix_join :: "path \<Rightarrow> string \<Rightarrow> path" where
  "posix_join a x =
     (if x \<noteq> [] \<and> hd x = CHR ''/'' then x
      else if a = [] \<or> last a = CHR ''/'' then a @ x
      else a @ ''/'' @ x)"

definition posix_normcase :: "string \<Rightarrow> string" where
  "posix_normcase s = s"

definition ascii_lower :: "char \<Rightarrow> char" where
  "ascii_lower ch =
     (if CHR ''A'' \<le> ch \<and> ch \<le> CHR ''Z'' then char_of (of_char ch + (32 :: nat)) else ch)"

definition nt_normcase :: "string \<Rightarrow> string" where
  "nt_normcase s = map (\<lambda>ch. if ch = CHR ''/'' then CHR 0x5C else ascii_lower ch) s"

definition reg_file :: "nat \<Rightarrow> int \<Rightarrow> stat_result" where
  "reg_file sz mt = \<lparr>st_mode = 33188, st_size = sz, st_mtime = mt\<rparr>"

definition directory :: stat_result where
  "directory = \<lparr>st_mode = 16877, st_size = 4096, st_mtime = 0\<rparr>"

definition fifo :: stat_result where
  "fifo = \<lparr>st_mode = 4516, st_size = 0, st_mtime = 0\<rparr>"

text \<open>
  Directories \<^verbatim>\<open>A\<close> and \<^verbatim>\<open>B\<close>: \<^verbatim>\<open>x.txt\<close> has the same size and time on both sides
  and different bytes, \<^verbatim>\<open>y.txt\<close> is the same file twice, \<^verbatim>\<open>sub\<close> is a directory on
  both sides, \<^verbatim>\<open>f\<close> is a file in \<^verbatim>\<open>A\<close> and a directory in \<^verbatim>\<open>B\<close>, \<^verbatim>\<open>p\<close> is a named
  pipe on both sides, \<^verbatim>\<open>gone\<close> is listed and cannot be stat'd in \<^verbatim>\<open>B\<close>.
  Directory \<^verbatim>\<open>S\<close> holds a readable file, a named pipe, a directory and a file that
  can be stat'd and not opened; directory \<^verbatim>\<open>T\<close> holds a readable file and a
  directory.  Directories \<^verbatim>\<open>L\<close> and \<^verbatim>\<open>R\<close> differ in letter case.
\<close>

definition demo_stat :: "(path \<times> stat_result) list" where
  "demo_stat =
     [(''A/x.txt'', reg_file 1 7), (''B/x.txt'', reg_file 1 7),
      (''A/y.txt'', reg_file 2 3), (''B/y.txt'', reg_file 2 3),
      (''A/z.txt'', reg_file 2 3), (''B/z.txt'', reg_file 3 3),
      (''A/sub'', directory), (''B/sub'', directory),
      (''A/f'', reg_file 0 0), (''B/f'', directory),
      (''A/p'', fifo), (''B/p'', fifo),
      (''A/gone'', reg_file 0 0),
      (''A/only_a'', reg_file 0 0), (''B/only_b'', reg_file 0 0),
      (''S/f'', reg_file 2 1), (''S/p'', fifo), (''S/locked'', reg_file 1 1),
      (''S/sub'', directory),
      (''T/a'', reg_file 2 1), (''T/d'', directory)]"

definition demo_listdir :: "(path \<times> string list) list" where
  "demo_listdir =
     [(''A'', [''y.txt'', ''x.txt'', ''z.txt'', ''sub'', ''.git'', ''f'', ''p'', ''gone'', ''only_a'']),
      (''B'', [''x.txt'', ''only_b'', ''y.txt'', ''z.txt'', ''sub'', ''f'', ''p'', ''gone'', ''tags'']),
      (''S'', [''sub'', ''p'', ''locked'', ''f'']),
      (''L'', [''README'', ''a.txt'']),
      (''R'', [''readme'', ''b.txt'']),
      (''T'', [''d'', ''a''])]"

definition demo_open :: "(path \<times> byte list) list" where
  "demo_open =
     [(''A/x.txt'', [97]), (''B/x.txt'', [98]),
      (''A/y.txt'', [104, 105]), (''B/y.txt'', [104, 105]),
      (''A/z.txt'', [104, 105]), (''B/z.txt'', [104, 105, 33]),
      (''A/f'', []), (''A/gone'', []), (''A/only_a'', []), (''B/only_b'', []),
      (''S/f'', [111, 107]),
      (''T/a'', [111, 107])]"

definition demo_os :: os where
  "demo_os =
     \<lparr>os_stat = map_of demo_stat, os_listdir = map_of demo_listdir,
      os_open = map_of demo_open, path_join = posix_join, path_normcase = posix_normcase\<rparr>"

definition demo_nt :: os where
  "demo_nt = demo_os\<lparr>path_normcase := nt_normcase\<rparr>"

text \<open>
  A file system with an empty regular file under every path of the form \<^verbatim>\<open>aaa...\<close>,
  for filling the cache with many distinct comparisons.
\<close>

definition many_os :: os where
  "many_os =
     \<lparr>os_stat = (\<lambda>p. if set p \<subseteq> {CHR ''a''} then Some (reg_file 0 0) else None),
      os_listdir = (\<lambda>p. None),
      os_open = (\<lambda>p. if set p \<subseteq> {CHR ''a''} then Some [] else None),
      path_join = posix_join, path_normcase = posix_normcase\<rparr>"

definition many_calls :: "nat \<Rightarrow> (path \<times> path \<times> bool) list" where
  "many_calls n = map (\<lambda>i. (replicate i CHR ''a'', replicate i CHR ''a'', False)) [0..<n]"

definition many_key :: "nat \<Rightarrow> cache_key" where
  "many_key i = (replicate i CHR ''a'', replicate i CHR ''a'', (32768, 0, 0), (32768, 0, 0))"

section \<open>Properties of the stream comparison\<close>

lemma do_cmp_loop_eq: "do_cmp_loop r1 r2 = (r1 = r2)"
proof (induction r1 r2 rule: do_cmp_loop.induct)
  case (1 r1 r2)
  show ?case
  proof (cases "take BUFSIZE r1 = take BUFSIZE r2")
    case False
    then have "r1 \<noteq> r2" by auto
    with False show ?thesis by (subst do_cmp_loop.simps) simp
  next
    case same: True
    show ?thesis
    proof (cases "take BUFSIZE r1 = []")
      case True
      with same have "r1 = []" "r2 = []" by (auto simp: BUFSIZE_def)
      then show ?thesis by (subst do_cmp_loop.simps) simp
    next
      case False
      have "do_cmp_loop r1 r2 = do_cmp_loop (drop BUFSIZE r1) (drop BUFSIZE r2)"
        using same False by (subst do_cmp_loop.simps) simp
      also have "\<dots> = (drop BUFSIZE r1 = drop BUFSIZE r2)"
        using "1.IH" same False by simp
      also have "\<dots> = (r1 = r2)"
        using same by (metis append_take_drop_id)
      finally show ?thesis .
    qed
  qed
qed

section \<open>The cache is coherent and bounded\<close>

lemma cache_ok_empty: "cache_ok env fmempty"
  by (simp add: cache_ok_def)

lemma cache_okD:
  "cache_ok env c \<Longrightarrow> os_stat env f1 = Some st1 \<Longrightarrow> os_stat env f2 = Some st2 \<Longrightarrow>
   fmlookup c (f1, f2, u_sig st1, u_sig st2) = Some v \<Longrightarrow> u_do_cmp env f1 f2 = Inr v"
  unfolding cache_ok_def by blast

lemma cache_ok_upd:
  assumes "cache_ok env c" and "os_stat env f1 = Some st1" and "os_stat env f2 = Some st2"
    and "u_do_cmp env f1 f2 = Inr v"
  shows "cache_ok env (fmupd (f1, f2, u_sig st1, u_sig st2) v c)"
  using assms unfolding cache_ok_def by auto

lemma cache_ok_cmp:
  assumes "cache_ok env c"
  shows "cache_ok env (snd (cmp env f1 f2 sh c))"
  using assms
  by (auto simp: cmp_def Let_def clear_cache_def cache_ok_empty cache_ok_upd
      split: option.splits sum.splits)

lemma cmp_scratch:
  assumes "cache_ok env c"
  shows "fst (cmp env f1 f2 sh c) = fst (cmp env f1 f2 sh fmempty)"
  using assms
  by (auto simp: cmp_def Let_def split: option.splits sum.splits dest: cache_okD)

lemma cmp_twice: "fst (cmp env f1 f2 sh (snd (cmp env f1 f2 sh c))) = fst (cmp env f1 f2 sh c)"
  by (auto simp: cmp_def Let_def split: option.splits sum.splits)

lemma cmp_all_scratch:
  "cache_ok env c \<Longrightarrow>
   fst (cmp_all env calls c) = map (\<lambda>(f1, f2, sh). fst (cmp env f1 f2 sh fmempty)) calls"
proof (induction calls arbitrary: c)
  case Nil
  then show ?case by simp
next
  case (Cons call calls)
  obtain f1 f2 sh where call: "call = (f1, f2, sh)" by (cases call)
  obtain r c1 where step: "cmp env f1 f2 sh c = (r, c1)" by (cases "cmp env f1 f2 sh c")
  have ok1: "cache_ok env c1" using cache_ok_cmp [OF Cons.prems, of f1 f2 sh] step by simp
  have r: "r = fst (cmp env f1 f2 sh fmempty)"
    using cmp_scratch [OF Cons.prems, of f1 f2 sh] step by simp
  show ?case using Cons.IH [OF ok1] call step r by (cases "cmp_all env calls c1") simp
qed

lemma cache_ok_cmp_all: "cache_ok env c \<Longrightarrow> cache_ok env (snd (cmp_all env calls c))"
proof (induction calls arbitrary: c)
  case Nil
  then show ?case by simp
next
  case (Cons call calls)
  obtain f1 f2 sh where call: "call = (f1, f2, sh)" by (cases call)
  obtain r c1 where step: "cmp env f1 f2 sh c = (r, c1)" by (cases "cmp env f1 f2 sh c")
  have ok1: "cache_ok env c1" using cache_ok_cmp [OF Cons.prems, of f1 f2 sh] step by simp
  show ?case using Cons.IH [OF ok1] call step by (cases "cmp_all env calls c1") simp
qed

lemma cmp_size: "fcard (fmdom (snd (cmp env f1 f2 sh c))) \<le> max (fcard (fmdom c)) 101"
  by (auto simp: cmp_def Let_def clear_cache_def fcard_finsert_if fcard_fempty
      split: option.splits sum.splits)

lemma cmp_all_size:
  "fcard (fmdom c) \<le> 101 \<Longrightarrow> fcard (fmdom (snd (cmp_all env calls c))) \<le> 101"
proof (induction calls arbitrary: c)
  case Nil
  then show ?case by simp
next
  case (Cons call calls)
  obtain f1 f2 sh where call: "call = (f1, f2, sh)" by (cases call)
  obtain r c1 where step: "cmp env f1 f2 sh c = (r, c1)" by (cases "cmp env f1 f2 sh c")
  have "fcard (fmdom c1) \<le> 101" using cmp_size [of env f1 f2 sh c] step Cons.prems by simp
  from Cons.IH [OF this] show ?case using call step by (cases "cmp_all env calls c1") simp
qed


section \<open>The cache after many distinct comparisons\<close>

lemma cmp_all_append:
  "snd (cmp_all env (xs @ ys) c) = snd (cmp_all env ys (snd (cmp_all env xs c)))"
proof (induction xs arbitrary: c)
  case Nil
  then show ?case by simp
next
  case (Cons call xs)
  obtain f1 f2 sh where call: "call = (f1, f2, sh)" by (cases call)
  obtain r c1 where step: "cmp env f1 f2 sh c = (r, c1)" by (cases "cmp env f1 f2 sh c")
  show ?case using Cons.IH [of c1] call step
    by (cases "cmp_all env xs c1"; cases "cmp_all env (xs @ ys) c1") simp
qed

lemma many_key_inj: "inj many_key"
proof (rule injI)
  fix i j assume "many_key i = many_key j"
  then have "replicate i CHR ''a'' = replicate j CHR ''a''" by (simp add: many_key_def)
  then have "length (replicate i CHR ''a'') = length (replicate j CHR ''a'')" by simp
  then show "i = j" by simp
qed

lemma fcard_many_keys: "fcard (fset_of_list (map many_key [0..<n])) = n"
proof -
  have "distinct (map many_key [0..<n])"
    by (simp add: distinct_map inj_on_subset [OF many_key_inj])
  then have "card (set (map many_key [0..<n])) = n"
    using distinct_card by fastforce
  then show ?thesis by (simp add: fcard.rep_eq fset_of_list.rep_eq)
qed

lemma many_cmp_miss:
  assumes "fmlookup c (many_key i) = None"
  shows "cmp many_os (replicate i CHR ''a'') (replicate i CHR ''a'') False c =
    (Inr True, fmupd (many_key i) True (if fcard (fmdom c) > 100 then fmempty else c))"
  using assms
  by (simp add: cmp_def many_os_def u_sig_def reg_file_def S_IFMT_def S_IFREG_def
      u_do_cmp_def do_cmp_loop_eq many_key_def clear_cache_def Let_def
      set_replicate_conv_if)

lemma many_calls_Suc:
  "many_calls (Suc n) = many_calls n @ [(replicate n CHR ''a'', replicate n CHR ''a'', False)]"
  by (simp add: many_calls_def)

lemma many_dom:
  "n \<le> 101 \<Longrightarrow>
   fmdom (snd (cmp_all many_os (many_calls n) fmempty)) = fset_of_list (map many_key [0..<n])"
proof (induction n)
  case 0
  then show ?case by (simp add: many_calls_def)
next
  case (Suc n)
  let ?c = "snd (cmp_all many_os (many_calls n) fmempty)"
  have dom: "fmdom ?c = fset_of_list (map many_key [0..<n])" using Suc by simp
  have "many_key n \<notin> set (map many_key [0..<n])"
    by (auto dest: injD [OF many_key_inj])
  then have miss: "fmlookup ?c (many_key n) = None"
    using dom by (metis fmdom_notD fset_of_list_elem)
  have small: "\<not> fcard (fmdom ?c) > 100"
    using dom fcard_many_keys [of n] Suc.prems by simp
  have "snd (cmp_all many_os (many_calls (Suc n)) fmempty) = fmupd (many_key n) True ?c"
    using many_cmp_miss [OF miss] small by (simp add: many_calls_Suc cmp_all_append)
  then show ?case using dom by (simp add: fset_of_list_elem) 
qed

lemma many_size:
  "n \<le> 101 \<Longrightarrow> fcard (fmdom (snd (cmp_all many_os (many_calls n) fmempty))) = n"
  by (simp only: many_dom fcard_many_keys)

section \<open>Facts about the example file system\<close>

lemma demo_stat_x:
  "os_stat demo_os ''A/x.txt'' = Some (reg_file 1 7)" "os_stat demo_os ''B/x.txt'' = Some (reg_file 1 7)"
  by (simp_all add: demo_os_def demo_stat_def)

lemma demo_stat_z:
  "os_stat demo_os ''A/z.txt'' = Some (reg_file 2 3)" "os_stat demo_os ''B/z.txt'' = Some (reg_file 3 3)"
  by (simp_all add: demo_os_def demo_stat_def)

lemma demo_open_x:
  "os_open demo_os ''A/x.txt'' = Some [97]" "os_open demo_os ''B/x.txt'' = Some [98]"
  by (simp_all add: demo_os_def demo_open_def)

lemma reg_file_is_reg: "S_IFMT (st_mode (reg_file sz mt)) = S_IFREG"
  by (simp add: S_IFMT_def reg_file_def S_IFREG_def)

lemma directory_is_dir: "S_IFMT (st_mode directory) = S_IFDIR"
  by (simp add: S_IFMT_def directory_def S_IFDIR_def)

lemma fifo_type: "S_IFMT (st_mode fifo) = 4096"
  by (simp add: S_IFMT_def fifo_def)

section \<open>The file comparator\<close>

text \<open>
  Claim C3.  For two regular files compared with \<open>shallow = False\<close>: when the sizes of
  the two signatures differ, \<open>cmp\<close> returns \<open>False\<close> and leaves the cache alone whatever
  opening the files would give, so no content is read.  When the sizes are equal and the
  cache has no entry under the key (or is coherent with the file system), \<open>cmp\<close> returns
  what the chunk loop of \<^verbatim>\<open>_do_cmp\<close> returns on the two streams, and the loop returns
  \<open>True\<close> exactly when the streams are equal.
\<close>

theorem cmp_deep_compares_streams:
  assumes "os_stat env f1 = Some st1" and "os_stat env f2 = Some st2"
    and "S_IFMT (st_mode st1) = S_IFREG" and "S_IFMT (st_mode st2) = S_IFREG"
  shows "(st_size st1 \<noteq> st_size st2 \<longrightarrow>
            (\<forall>opn. cmp (env\<lparr>os_open := opn\<rparr>) f1 f2 False c = (Inr False, c)))
       \<and> (st_size st1 = st_size st2 \<longrightarrow>
            os_open env f1 = Some d1 \<longrightarrow> os_open env f2 = Some d2 \<longrightarrow>
            (fmlookup c (f1, f2, u_sig st1, u_sig st2) = None \<or> cache_ok env c) \<longrightarrow>
            fst (cmp env f1 f2 False c) = Inr (do_cmp_loop d1 d2)
            \<and> do_cmp_loop d1 d2 = (d1 = d2))"
proof (intro conjI impI allI)
  fix opn
  assume "st_size st1 \<noteq> st_size st2"
  then show "cmp (env\<lparr>os_open := opn\<rparr>) f1 f2 False c = (Inr False, c)"
    using assms by (simp add: cmp_def u_sig_def)
next
  assume sz: "st_size st1 = st_size st2"
    and op: "os_open env f1 = Some d1" "os_open env f2 = Some d2"
    and ch: "fmlookup c (f1, f2, u_sig st1, u_sig st2) = None \<or> cache_ok env c"
  have full: "u_do_cmp env f1 f2 = Inr (do_cmp_loop d1 d2)"
    using op by (simp add: u_do_cmp_def)
  show "fst (cmp env f1 f2 False c) = Inr (do_cmp_loop d1 d2)"
  proof (cases "fmlookup c (f1, f2, u_sig st1, u_sig st2)")
    case None
    then show ?thesis using assms sz full by (simp add: cmp_def u_sig_def Let_def)
  next
    case (Some v)
    with ch have "cache_ok env c" by simp
    from cache_okD [OF this assms(1,2) Some] full have "v = do_cmp_loop d1 d2" by simp
    then show ?thesis using assms sz Some by (simp add: cmp_def u_sig_def Let_def)
  qed
next
  show "do_cmp_loop d1 d2 = (d1 = d2)" by (rule do_cmp_loop_eq)
qed

theorem cmp_deep_compares_streams_witness:
  "cmp demo_os ''A/z.txt'' ''B/z.txt'' False fmempty = (Inr False, fmempty)
   \<and> fst (cmp demo_os ''A/x.txt'' ''B/x.txt'' False fmempty) = Inr False"
proof -
  have z: "st_size (reg_file 2 3) \<noteq> st_size (reg_file 3 3)" by (simp add: reg_file_def)
  have x: "st_size (reg_file 1 7) = st_size (reg_file 1 7)" by simp
  have same: "demo_os\<lparr>os_open := os_open demo_os\<rparr> = demo_os" by simp
  from cmp_deep_compares_streams [OF demo_stat_z reg_file_is_reg reg_file_is_reg,
      of fmempty d1 d2] z same
  have 1: "cmp demo_os ''A/z.txt'' ''B/z.txt'' False fmempty = (Inr False, fmempty)"
    by metis
  from cmp_deep_compares_streams [OF demo_stat_x reg_file_is_reg reg_file_is_reg,
      of fmempty "[97]" "[98]"] demo_open_x
  have 2: "fst (cmp demo_os ''A/x.txt'' ''B/x.txt'' False fmempty) = Inr False"
    by simp
  from 1 2 show ?thesis by simp
qed

text \<open>
  Claim C4.  For two regular files with identical signatures, \<open>cmp\<close> with
  \<open>shallow = True\<close> returns \<open>True\<close> and leaves the cache alone whatever opening the files
  would give; and there are two files with identical signatures and different bytes
  that compare equal with \<open>shallow = True\<close> and unequal with \<open>shallow = False\<close>.
\<close>

theorem cmp_shallow_trusts_signature:
  "(os_stat env f1 = Some st1 \<longrightarrow> os_stat env f2 = Some st2 \<longrightarrow>
      S_IFMT (st_mode st1) = S_IFREG \<longrightarrow> u_sig st1 = u_sig st2 \<longrightarrow>
      (\<forall>opn. cmp (env\<lparr>os_open := opn\<rparr>) f1 f2 True c = (Inr True, c)))
   \<and> (\<exists>env' g1 g2 t1 t2 d1 d2.
        os_stat env' g1 = Some t1 \<and> os_stat env' g2 = Some t2
        \<and> S_IFMT (st_mode t1) = S_IFREG \<and> u_sig t1 = u_sig t2
        \<and> os_open env' g1 = Some d1 \<and> os_open env' g2 = Some d2 \<and> d1 \<noteq> d2
        \<and> fst (cmp env' g1 g2 True fmempty) = Inr True
        \<and> fst (cmp env' g1 g2 False fmempty) = Inr False)"
proof (intro conjI impI allI)
  fix opn
  assume "os_stat env f1 = Some st1" "os_stat env f2 = Some st2"
    "S_IFMT (st_mode st1) = S_IFREG" "u_sig st1 = u_sig st2"
  then show "cmp (env\<lparr>os_open := opn\<rparr>) f1 f2 True c = (Inr True, c)"
    by (simp add: cmp_def u_sig_def)
next
  have "fst (cmp demo_os ''A/x.txt'' ''B/x.txt'' True fmempty) = Inr True"
    by (simp add: cmp_def demo_stat_x u_sig_def reg_file_is_reg)
  moreover have "fst (cmp demo_os ''A/x.txt'' ''B/x.txt'' False fmempty) = Inr False"
    by (simp add: cmp_def demo_stat_x demo_open_x u_sig_def reg_file_is_reg u_do_cmp_def
        do_cmp_loop_eq Let_def)
  moreover have "[97] \<noteq> ([98] :: byte list)" by simp
  ultimately show "\<exists>env' g1 g2 t1 t2 d1 d2.
        os_stat env' g1 = Some t1 \<and> os_stat env' g2 = Some t2
        \<and> S_IFMT (st_mode t1) = S_IFREG \<and> u_sig t1 = u_sig t2
        \<and> os_open env' g1 = Some d1 \<and> os_open env' g2 = Some d2 \<and> d1 \<noteq> d2
        \<and> fst (cmp env' g1 g2 True fmempty) = Inr True
        \<and> fst (cmp env' g1 g2 False fmempty) = Inr False"
    using demo_stat_x demo_open_x reg_file_is_reg by blast
qed

theorem cmp_shallow_trusts_signature_witness:
  "cmp (demo_os\<lparr>os_open := \<lambda>p. None\<rparr>) ''A/x.txt'' ''B/x.txt'' True fmempty = (Inr True, fmempty)"
  using cmp_shallow_trusts_signature [of demo_os "''A/x.txt''" "reg_file 1 7" "''B/x.txt''"
      "reg_file 1 7" fmempty] demo_stat_x reg_file_is_reg
  by simp

text \<open>
  Claim C5.  If either path cannot be stat'd, \<open>cmp\<close> ends with \<open>OSError\<close>; if both can
  and one of the two type tags is not \<open>S_IFREG\<close>, it returns \<open>False\<close>, whatever the
  \<open>shallow\<close> flag.
\<close>

theorem cmp_not_regular_or_no_stat:
  "(os_stat env f1 = None \<or> os_stat env f2 = None \<longrightarrow> cmp env f1 f2 sh c = (Inl OSError, c))
   \<and> (os_stat env f1 = Some st1 \<longrightarrow> os_stat env f2 = Some st2 \<longrightarrow>
        S_IFMT (st_mode st1) \<noteq> S_IFREG \<or> S_IFMT (st_mode st2) \<noteq> S_IFREG \<longrightarrow>
        cmp env f1 f2 sh c = (Inr False, c))"
  by (auto simp: cmp_def u_sig_def split: option.splits)

theorem cmp_not_regular_or_no_stat_witness:
  "cmp demo_os ''A/f'' ''B/f'' True fmempty = (Inr False, fmempty)
   \<and> cmp demo_os ''A/gone'' ''B/gone'' False fmempty = (Inl OSError, fmempty)"
proof -
  have f: "os_stat demo_os ''A/f'' = Some (reg_file 0 0)" "os_stat demo_os ''B/f'' = Some directory"
    by (simp_all add: demo_os_def demo_stat_def)
  have g: "os_stat demo_os ''B/gone'' = None" by (simp add: demo_os_def demo_stat_def)
  have d: "S_IFMT (st_mode directory) \<noteq> S_IFREG"
    by (simp add: directory_is_dir S_IFDIR_def S_IFREG_def)
  from cmp_not_regular_or_no_stat [of demo_os "''A/f''" "''B/f''" True fmempty "reg_file 0 0" directory]
    f d
  have 1: "cmp demo_os ''A/f'' ''B/f'' True fmempty = (Inr False, fmempty)" by simp
  from cmp_not_regular_or_no_stat [of demo_os "''A/gone''" "''B/gone''" False fmempty] g
  have 2: "cmp demo_os ''A/gone'' ''B/gone'' False fmempty = (Inl OSError, fmempty)" by simp
  from 1 2 show ?thesis by simp
qed

section \<open>The cache policy\<close>

lemma many_miss: "n \<le> 101 \<Longrightarrow> fmlookup (snd (cmp_all many_os (many_calls n) fmempty)) (many_key n) = None"
proof -
  assume "n \<le> 101"
  then have dom: "fmdom (snd (cmp_all many_os (many_calls n) fmempty)) = fset_of_list (map many_key [0..<n])"
    by (rule many_dom)
  have "many_key n \<notin> set (map many_key [0..<n])"
    by (auto dest: injD [OF many_key_inj])
  then show ?thesis using dom by (metis fmdom_notD fset_of_list_elem)
qed

lemma many_stat: "os_stat many_os (replicate n CHR ''a'') = Some (reg_file 0 0)"
  by (simp add: many_os_def set_replicate_conv_if)

lemma many_do_cmp: "u_do_cmp many_os (replicate n CHR ''a'') (replicate n CHR ''a'') = Inr True"
  by (simp add: many_os_def set_replicate_conv_if u_do_cmp_def do_cmp_loop_eq)

lemma many_key_sig: "many_key n = (replicate n CHR ''a'', replicate n CHR ''a'', u_sig (reg_file 0 0), u_sig (reg_file 0 0))"
  by (simp add: many_key_def u_sig_def reg_file_def S_IFMT_def)

text \<open>
  Claim C6 (amended).  On a miss followed by a full comparison, \<open>cmp\<close> first drops the
  whole cache if it holds more than 100 entries and then stores the result, so the
  result of the call is always in the cache afterwards.  A call never leaves more than
  101 entries in a cache that held at most 101, and the cache built from the empty one
  by any sequence of calls holds at most 101 entries.
\<close>

theorem cmp_clears_then_stores:
  "(os_stat env f1 = Some st1 \<longrightarrow> os_stat env f2 = Some st2 \<longrightarrow>
      S_IFMT (st_mode st1) = S_IFREG \<longrightarrow> S_IFMT (st_mode st2) = S_IFREG \<longrightarrow>
      \<not> (sh \<and> u_sig st1 = u_sig st2) \<longrightarrow> st_size st1 = st_size st2 \<longrightarrow>
      fmlookup c (f1, f2, u_sig st1, u_sig st2) = None \<longrightarrow> u_do_cmp env f1 f2 = Inr v \<longrightarrow>
      cmp env f1 f2 sh c =
        (Inr v, fmupd (f1, f2, u_sig st1, u_sig st2) v
                  (if fcard (fmdom c) > 100 then fmempty else c)))
   \<and> fcard (fmdom (snd (cmp env f1 f2 sh c))) \<le> max (fcard (fmdom c)) 101
   \<and> fcard (fmdom (snd (cmp_all env calls fmempty))) \<le> 101"
proof (intro conjI impI)
  assume "os_stat env f1 = Some st1" "os_stat env f2 = Some st2"
    "S_IFMT (st_mode st1) = S_IFREG" "S_IFMT (st_mode st2) = S_IFREG"
    "\<not> (sh \<and> u_sig st1 = u_sig st2)" "st_size st1 = st_size st2"
    "fmlookup c (f1, f2, u_sig st1, u_sig st2) = None" "u_do_cmp env f1 f2 = Inr v"
  then show "cmp env f1 f2 sh c =
        (Inr v, fmupd (f1, f2, u_sig st1, u_sig st2) v
                  (if fcard (fmdom c) > 100 then fmempty else c))"
    by (auto simp: cmp_def Let_def clear_cache_def u_sig_def)
next
  show "fcard (fmdom (snd (cmp env f1 f2 sh c))) \<le> max (fcard (fmdom c)) 101"
    by (rule cmp_size)
next
  show "fcard (fmdom (snd (cmp_all env calls fmempty))) \<le> 101"
    by (rule cmp_all_size) (simp add: fcard_fempty)
qed

theorem cmp_clears_then_stores_witness:
  "cmp many_os (replicate 101 CHR ''a'') (replicate 101 CHR ''a'') False
     (snd (cmp_all many_os (many_calls 101) fmempty))
   = (Inr True, fmupd (many_key 101) True fmempty)"
proof -
  let ?c = "snd (cmp_all many_os (many_calls 101) fmempty)"
  let ?p = "replicate 101 CHR ''a''"
  have miss: "fmlookup ?c (?p, ?p, u_sig (reg_file 0 0), u_sig (reg_file 0 0)) = None"
    using many_miss [of 101] by (simp only: many_key_sig)
  have big: "fcard (fmdom ?c) > 100" using many_size [of 101] by simp
  have "cmp many_os ?p ?p False ?c =
        (Inr True, fmupd (?p, ?p, u_sig (reg_file 0 0), u_sig (reg_file 0 0)) True
                  (if fcard (fmdom ?c) > 100 then fmempty else ?c))"
    using cmp_clears_then_stores [of many_os ?p "reg_file 0 0" ?p "reg_file 0 0" False ?c True "[]"]
      many_stat [of 101] many_do_cmp [of 101] reg_file_is_reg [of 0 0] miss
    by simp
  then show ?thesis using big by (simp only: many_key_sig if_True)
qed

text \<open>
  Claim C6 as stated fails.  After 101 distinct comparisons from the empty cache the
  cache holds 101 entries, more than 100, and has not been dropped; and the cache left
  by the 101st comparison is not the one that storing first and dropping afterwards
  would leave.
\<close>

theorem cache_store_then_drop_counterexample:
  "fcard (fmdom (snd (cmp_all many_os (many_calls 101) fmempty))) = 101
   \<and> snd (cmp many_os (replicate 100 CHR ''a'') (replicate 100 CHR ''a'') False
            (snd (cmp_all many_os (many_calls 100) fmempty)))
      \<noteq> spec_store_then_drop (many_key 100) True (snd (cmp_all many_os (many_calls 100) fmempty))"
proof
  show "fcard (fmdom (snd (cmp_all many_os (many_calls 101) fmempty))) = 101"
    by (rule many_size) simp
next
  let ?c = "snd (cmp_all many_os (many_calls 100) fmempty)"
  have sz: "fcard (fmdom ?c) = 100" by (rule many_size) simp
  have miss: "fmlookup ?c (many_key 100) = None" by (rule many_miss) simp
  have notin: "many_key 100 |\<notin>| fmdom ?c" using miss by (simp add: fmdom_notI)
  have code: "snd (cmp many_os (replicate 100 CHR ''a'') (replicate 100 CHR ''a'') False ?c)
      = fmupd (many_key 100) True ?c"
    using many_cmp_miss [OF miss] sz by simp
  have "fcard (fmdom (fmupd (many_key 100) True ?c)) = 101"
    using sz notin by (simp add: fcard_finsert_disjoint)
  then have spec: "spec_store_then_drop (many_key 100) True ?c = fmempty"
    by (simp add: spec_store_then_drop_def Let_def)
  have "fmupd (many_key 100) True ?c \<noteq> fmempty"
    by (metis fmdom_empty fmdom_fmupd finsert_not_fempty)
  with code spec show "snd (cmp many_os (replicate 100 CHR ''a'') (replicate 100 CHR ''a'') False ?c)
      \<noteq> spec_store_then_drop (many_key 100) True ?c"
    by simp
qed

text \<open>
  Claim C8.  A second call of \<open>cmp\<close> on the same file system returns what the first
  call returned, from any cache.  Along any sequence of calls that starts with the empty
  cache, resets included, every call returns what \<open>cmp\<close> returns on an empty cache; the
  same holds for a single call on any cache that is coherent with the file system.
\<close>

theorem cache_never_changes_results:
  "fst (cmp env f1 f2 sh (snd (cmp env f1 f2 sh c))) = fst (cmp env f1 f2 sh c)
   \<and> fst (cmp_all env calls fmempty) = map (\<lambda>(g1, g2, s). fst (cmp env g1 g2 s fmempty)) calls
   \<and> (cache_ok env c \<longrightarrow> fst (cmp env f1 f2 sh c) = fst (cmp env f1 f2 sh fmempty))"
  using cmp_twice cmp_all_scratch [OF cache_ok_empty] cmp_scratch by blast

theorem cache_never_changes_results_witness:
  "fst (cmp demo_os ''A/x.txt'' ''B/x.txt'' False
          (snd (cmp demo_os ''A/x.txt'' ''B/x.txt'' False fmempty))) = Inr False
   \<and> fst (cmp_all demo_os [(''A/x.txt'', ''B/x.txt'', False), (''A/x.txt'', ''B/x.txt'', False)]
            fmempty) = [Inr False, Inr False]"
proof -
  have ok: "cache_ok demo_os (snd (cmp demo_os ''A/x.txt'' ''B/x.txt'' False fmempty))"
    by (rule cache_ok_cmp [OF cache_ok_empty])
  have scratch: "fst (cmp demo_os ''A/x.txt'' ''B/x.txt'' False fmempty) = Inr False"
    by (simp add: cmp_def demo_stat_x demo_open_x u_sig_def reg_file_is_reg u_do_cmp_def
        do_cmp_loop_eq Let_def)
  from cache_never_changes_results [of demo_os "''A/x.txt''" "''B/x.txt''" False
      "snd (cmp demo_os ''A/x.txt'' ''B/x.txt'' False fmempty)"
      "[(''A/x.txt'', ''B/x.txt'', False), (''A/x.txt'', ''B/x.txt'', False)]"] ok scratch
  show ?thesis by simp
qed

section \<open>The directory classifier: dictionaries and phase 1\<close>

lemma update_setD: "(k', v') \<in> set (AList.update k v al) \<Longrightarrow> (k', v') = (k, v) \<or> (k', v') \<in> set al"
  by (induction al) (auto split: if_splits)

lemma fold_update_keys:
  "fst ` set (fold (\<lambda>(k, v) d. AList.update k v d) ps al) = fst ` set al \<union> fst ` set ps"
proof (induction ps arbitrary: al)
  case Nil
  then show ?case by simp
next
  case (Cons p ps)
  obtain k v where p: "p = (k, v)" by (cases p)
  have "fst ` set (fold (\<lambda>(k, v) d. AList.update k v d) (p # ps) al)
      = fst ` set (AList.update k v al) \<union> fst ` set ps"
    using Cons.IH [of "AList.update k v al"] p by simp
  also have "\<dots> = fst ` set al \<union> fst ` set (p # ps)"
    using p by (simp add: AList.dom_update)
  finally show ?case .
qed

lemma fold_update_distinct:
  "distinct (map fst al) \<Longrightarrow> distinct (map fst (fold (\<lambda>(k, v) d. AList.update k v d) ps al))"
  by (induction ps arbitrary: al) (auto simp: AList.distinct_update)

lemma fold_update_setD:
  "(k', v') \<in> set (fold (\<lambda>(k, v) d. AList.update k v d) ps al) \<Longrightarrow>
   (k', v') \<in> set ps \<or> (k', v') \<in> set al"
proof (induction ps arbitrary: al)
  case Nil
  then show ?case by simp
next
  case (Cons p ps)
  obtain k v where p: "p = (k, v)" by (cases p)
  from Cons.prems p have "(k', v') \<in> set (fold (\<lambda>(k, v) d. AList.update k v d) ps (AList.update k v al))"
    by simp
  from Cons.IH [OF this] show ?case using p by (auto dest: update_setD)
qed

lemma dict_zip_keys: "fst ` set (dict_zip (map f xs) xs) = f ` set xs"
proof -
  have "fst ` set (zip (map f xs) xs) = f ` set xs"
    by (induction xs) auto
  then show ?thesis by (simp add: dict_zip_def fold_update_keys)
qed

lemma dict_zip_distinct: "distinct (map fst (dict_zip ks vs))"
  by (simp add: dict_zip_def fold_update_distinct)

lemma dict_zip_pairs:
  assumes "(k, v) \<in> set (dict_zip (map f xs) xs)"
  shows "v \<in> set xs \<and> f v = k"
proof -
  from assms have "(k, v) \<in> set (zip (map f xs) xs)"
    by (auto simp: dict_zip_def dest: fold_update_setD)
  then show ?thesis by (induction xs) auto
qed

lemma map_raise_pairs:
  "(\<And>k v. (k, v) \<in> set ps \<Longrightarrow> g k = Inr v) \<Longrightarrow> map_raise g (map fst ps) = Inr (map snd ps)"
proof (induction ps)
  case Nil
  then show ?case by simp
next
  case (Cons p ps)
  obtain k v where p: "p = (k, v)" by (cases p)
  have head: "g k = Inr v" using Cons.prems [of k v] p by simp
  have "map_raise g (map fst ps) = Inr (map snd ps)"
    using Cons.IH Cons.prems by simp
  with head p show ?case by simp
qed

lemma dict_getitem_pair:
  "distinct (map fst al) \<Longrightarrow> (k, v) \<in> set al \<Longrightarrow> dict_getitem al k = Inr v"
  by (simp add: dict_getitem_def)

lemma dict_lookup_filter:
  assumes "distinct (map fst al)"
  shows "map_raise (dict_getitem al) (filter P (dict_keys al)) = Inr (map snd (filter (\<lambda>p. P (fst p)) al))"
proof -
  have "filter P (dict_keys al) = map fst (filter (\<lambda>p. P (fst p)) al)"
    by (simp add: dict_keys_def filter_map comp_def)
  moreover have "map_raise (dict_getitem al) (map fst (filter (\<lambda>p. P (fst p)) al))
      = Inr (map snd (filter (\<lambda>p. P (fst p)) al))"
    by (rule map_raise_pairs) (simp add: dict_getitem_pair [OF assms])
  ultimately show ?thesis by simp
qed

lemma dict_contains_keys: "dict_contains al k \<longleftrightarrow> k \<in> fst ` set al"
  by (simp add: dict_contains_def map_of_eq_None_iff)

text \<open>What \<open>phase1\<close> computes, without the dictionary lookups.\<close>

lemma phase1_eq:
  "phase1 env ll rl =
     (let a = dict_zip (map (path_normcase env) ll) ll;
          b = dict_zip (map (path_normcase env) rl) rl
      in Inr (map snd (filter (\<lambda>p. fst p \<in> path_normcase env ` set rl) a),
              map snd (filter (\<lambda>p. fst p \<notin> path_normcase env ` set rl) a),
              map snd (filter (\<lambda>p. fst p \<notin> path_normcase env ` set ll) b)))"
  by (simp add: phase1_def Let_def dict_lookup_filter [OF dict_zip_distinct]
      dict_contains_keys dict_zip_keys)

lemma image_snd_dict:
  assumes "\<And>k v. (k, v) \<in> set al \<Longrightarrow> f v = k"
  shows "f ` snd ` {p \<in> set al. Q (fst p)} = {k \<in> fst ` set al. Q k}"
  using assms by (force simp: image_iff)

lemma phase1_sets:
  assumes "phase1 env ll rl = Inr (cm, lo, ro)"
  defines "N \<equiv> path_normcase env"
  shows "N ` set cm = N ` set ll \<inter> N ` set rl"
    and "N ` set lo = N ` set ll - N ` set rl"
    and "N ` set ro = N ` set rl - N ` set ll"
    and "set cm \<subseteq> set ll" and "set lo \<subseteq> set ll" and "set ro \<subseteq> set rl"
proof -
  let ?a = "dict_zip (map N ll) ll" and ?b = "dict_zip (map N rl) rl"
  have cm: "cm = map snd (filter (\<lambda>p. fst p \<in> N ` set rl) ?a)"
    and lo: "lo = map snd (filter (\<lambda>p. fst p \<notin> N ` set rl) ?a)"
    and ro: "ro = map snd (filter (\<lambda>p. fst p \<notin> N ` set ll) ?b)"
    using assms(1) by (simp_all add: phase1_eq Let_def N_def)
  have pa: "\<And>k v. (k, v) \<in> set ?a \<Longrightarrow> N v = k" and pb: "\<And>k v. (k, v) \<in> set ?b \<Longrightarrow> N v = k"
    by (auto dest: dict_zip_pairs)
  show "N ` set cm = N ` set ll \<inter> N ` set rl"
    using image_snd_dict [of ?a N "\<lambda>k. k \<in> N ` set rl", OF pa]
    by (simp add: cm dict_zip_keys) blast
  show "N ` set lo = N ` set ll - N ` set rl"
    using image_snd_dict [of ?a N "\<lambda>k. k \<notin> N ` set rl", OF pa]
    by (simp add: lo dict_zip_keys) blast
  show "N ` set ro = N ` set rl - N ` set ll"
    using image_snd_dict [of ?b N "\<lambda>k. k \<notin> N ` set ll", OF pb]
    by (simp add: ro dict_zip_keys) blast
  show "set cm \<subseteq> set ll" by (auto simp: cm dest: dict_zip_pairs)
  show "set lo \<subseteq> set ll" by (auto simp: lo dest: dict_zip_pairs)
  show "set ro \<subseteq> set rl" by (auto simp: ro dest: dict_zip_pairs)
qed

lemma phase1_total: "\<exists>cm lo ro. phase1 env ll rl = Inr (cm, lo, ro)"
  by (simp add: phase1_eq Let_def)

section \<open>The directory classifier: phases 0 and 2\<close>

lemma phase0_listing:
  assumes "os_listdir env (left d) = Some L" and "os_listdir env (right d) = Some R"
  shows "\<exists>ll rl. phase0 env d = Inr (ll, rl)
          \<and> set ll = filtered_names d L \<and> set rl = filtered_names d R"
  using assms by (auto simp: phase0_def u_filter_def filtered_names_def)

lemma S_IFMT_idem: "S_IFMT (S_IFMT m) = S_IFMT m"
  by (simp add: S_IFMT_def and.assoc)

lemma S_ISDIR_type: "S_ISDIR (S_IFMT m) = (S_IFMT m = S_IFDIR)"
  by (simp add: S_ISDIR_def S_IFMT_idem)

lemma S_ISREG_type: "S_ISREG (S_IFMT m) = (S_IFMT m = S_IFREG)"
  by (simp add: S_ISREG_def S_IFMT_idem)

lemma dir_neq_reg: "S_IFDIR \<noteq> S_IFREG"
  by (simp add: S_IFDIR_def S_IFREG_def)

lemma S_IS_consts:
  "S_ISDIR S_IFDIR" "S_ISREG S_IFREG" "\<not> S_ISDIR S_IFREG" "\<not> S_ISREG S_IFDIR"
  by (simp_all add: S_ISDIR_def S_ISREG_def S_IFMT_def S_IFDIR_def S_IFREG_def)

lemma both_type_excl: "both_type env d S_IFDIR x \<Longrightarrow> \<not> both_type env d S_IFREG x"
  using dir_neq_reg by (auto simp: both_type_def split: option.splits)

lemma phase2_step_eq:
  "phase2_step env d x (ds, fs, us) =
     (if both_type env d S_IFDIR x then (ds @ [x], fs, us)
      else if both_type env d S_IFREG x then (ds, fs @ [x], us)
      else (ds, fs, us @ [x]))"
  using dir_neq_reg
  by (auto simp: phase2_step_def both_type_def Let_def S_ISDIR_type S_ISREG_type S_IS_consts
      split: option.splits)

lemma phase2_loop_eq:
  "phase2_loop env d xs (ds, fs, us) =
     (ds @ filter (both_type env d S_IFDIR) xs,
      fs @ filter (both_type env d S_IFREG) xs,
      us @ filter (\<lambda>x. \<not> both_type env d S_IFDIR x \<and> \<not> both_type env d S_IFREG x) xs)"
proof (induction xs arbitrary: ds fs us)
  case Nil
  then show ?case by simp
next
  case (Cons x xs)
  show ?case
    using both_type_excl [of env d x]
    by (simp add: phase2_step_eq Cons.IH)
qed

lemma phase2_eq:
  "phase2 env d cm =
     (filter (both_type env d S_IFDIR) cm,
      filter (both_type env d S_IFREG) cm,
      filter (\<lambda>x. \<not> both_type env d S_IFDIR x \<and> \<not> both_type env d S_IFREG x) cm)"
  by (simp add: phase2_def phase2_loop_eq)

lemma dircmp_attrsD:
  assumes "fst (dircmp_attrs env d c) = Inr r"
  shows "phase0 env d = Inr (left_list r, right_list r)"
    and "phase1 env (left_list r) (right_list r) = Inr (common r, left_only r, right_only r)"
    and "phase2 env d (common r) = (common_dirs r, common_files r, common_funny r)"
    and "fst (phase3 env d (common_files r) c) = (same_files r, diff_files r, funny_files r)"
  using assms
  by (auto simp: dircmp_attrs_def split: sum.splits prod.splits)

lemma dircmp_attrs_listing:
  assumes "os_listdir env (left d) = Some L" and "os_listdir env (right d) = Some R"
  shows "\<exists>r. fst (dircmp_attrs env d c) = Inr r"
proof -
  obtain ll rl where p0: "phase0 env d = Inr (ll, rl)"
    using phase0_listing [OF assms] by blast
  obtain cm lo ro where p1: "phase1 env ll rl = Inr (cm, lo, ro)"
    using phase1_total by blast
  show ?thesis using p0 p1
    by (simp add: dircmp_attrs_def split: prod.splits)
qed

section \<open>The batch comparator\<close>

lemma u_cmp_eq:
  "u_cmp env a b sh c =
     ((case fst (cmp env a b sh c) of Inr True \<Rightarrow> 0 | Inr False \<Rightarrow> 1 | Inl e \<Rightarrow> 2),
      snd (cmp env a b sh c))"
  by (cases "cmp env a b sh c") (auto simp: u_cmp_def split: sum.splits error.splits bool.splits)

lemma names_with_Nil: "names_with r [] ts = []"
  by (simp add: names_with_def)

lemma names_with_Cons:
  "names_with r (x # xs) (t # ts) = (if t = r then x # names_with r xs ts else names_with r xs ts)"
  by (simp add: names_with_def)

lemma names_with_map: "names_with r xs (map f xs) = filter (\<lambda>x. f x = r) xs"
  by (induction xs) (simp_all add: names_with_Nil names_with_Cons)

lemma length_cmp_trace: "length (cmp_trace env a b sh xs c) = length xs"
  by (induction xs arbitrary: c) (auto split: prod.splits)

lemma cmpfiles_loop_eq:
  "fst (cmpfiles_loop env a b sh xs (r0, r1, r2) c) =
     (r0 @ names_with (Inr True) xs (cmp_trace env a b sh xs c),
      r1 @ names_with (Inr False) xs (cmp_trace env a b sh xs c),
      r2 @ names_with (Inl OSError) xs (cmp_trace env a b sh xs c))"
proof (induction xs arbitrary: r0 r1 r2 c)
  case Nil
  then show ?case by (simp add: names_with_Nil)
next
  case (Cons x xs)
  obtain r c1 where step: "cmp env (path_join env a x) (path_join env b x) sh c = (r, c1)"
    by (cases "cmp env (path_join env a x) (path_join env b x) sh c")
  show ?case
  proof (cases r)
    case (Inl e)
    then have r: "r = Inl OSError" by (cases e) simp
    show ?thesis using step r
      by (simp add: u_cmp_eq res_append_def Cons.IH names_with_Cons)
  next
    case (Inr v)
    show ?thesis using step Inr
      by (cases v) (simp_all add: u_cmp_eq res_append_def Cons.IH names_with_Cons)
  qed
qed

lemma cmp_trace_fresh:
  "cache_ok env c \<Longrightarrow> cmp_trace env a b sh xs c = map (fresh_cmp env a b sh) xs"
proof (induction xs arbitrary: c)
  case Nil
  then show ?case by simp
next
  case (Cons x xs)
  obtain r c1 where step: "cmp env (path_join env a x) (path_join env b x) sh c = (r, c1)"
    by (cases "cmp env (path_join env a x) (path_join env b x) sh c")
  have ok1: "cache_ok env c1"
    using cache_ok_cmp [OF Cons.prems, of "path_join env a x" "path_join env b x" sh] step by simp
  have r: "r = fresh_cmp env a b sh x"
    using cmp_scratch [OF Cons.prems, of "path_join env a x" "path_join env b x" sh] step
    by (simp add: fresh_cmp_def)
  show ?case using Cons.IH [OF ok1] step r by simp
qed

lemma cmpfiles_fresh:
  assumes "cache_ok env c"
  shows "fst (cmpfiles env a b xs sh c) =
     (filter (\<lambda>x. fresh_cmp env a b sh x = Inr True) xs,
      filter (\<lambda>x. fresh_cmp env a b sh x = Inr False) xs,
      filter (\<lambda>x. fresh_cmp env a b sh x = Inl OSError) xs)"
  by (simp add: cmpfiles_def cmpfiles_loop_eq cmp_trace_fresh [OF assms] names_with_map)

lemma length_names_with:
  "length ts = length xs \<Longrightarrow>
   length (names_with (Inr True) xs ts) + length (names_with (Inr False) xs ts)
     + length (names_with (Inl OSError) xs ts) = length xs"
proof (induction xs arbitrary: ts)
  case Nil
  then show ?case by (simp add: names_with_Nil)
next
  case (Cons x xs)
  then obtain t ts' where ts: "ts = t # ts'" by (cases ts) auto
  have len: "length ts' = length xs" using Cons.prems ts by simp
  show ?case
  proof (cases t)
    case (Inl e)
    then have "t = Inl OSError" by (cases e) simp
    then show ?thesis using Cons.IH [OF len] ts by (simp add: names_with_Cons)
  next
    case (Inr v)
    then show ?thesis using Cons.IH [OF len] ts by (cases v) (simp_all add: names_with_Cons)
  qed
qed

text \<open>
  Claim C7.  \<open>cmpfiles\<close> returns three lists: the names whose call of \<open>cmp\<close> returned
  \<open>True\<close>, those whose call returned \<open>False\<close> and those whose call raised \<open>OSError\<close>,
  each in the order of the input list; a raised error does not end the run, so every
  name is in exactly one list.  On a cache that is coherent with the file system the
  three lists are the input list filtered by the outcome of a comparison from scratch.
\<close>

theorem cmpfiles_partitions_by_outcome:
  "fst (cmpfiles env a b names sh c) =
     (names_with (Inr True) names (cmp_trace env a b sh names c),
      names_with (Inr False) names (cmp_trace env a b sh names c),
      names_with (Inl OSError) names (cmp_trace env a b sh names c))
   \<and> length (cmp_trace env a b sh names c) = length names
   \<and> length (fst (fst (cmpfiles env a b names sh c)))
       + length (fst (snd (fst (cmpfiles env a b names sh c))))
       + length (snd (snd (fst (cmpfiles env a b names sh c)))) = length names
   \<and> (cache_ok env c \<longrightarrow>
        fst (cmpfiles env a b names sh c) =
          (filter (\<lambda>x. fresh_cmp env a b sh x = Inr True) names,
           filter (\<lambda>x. fresh_cmp env a b sh x = Inr False) names,
           filter (\<lambda>x. fresh_cmp env a b sh x = Inl OSError) names))"
proof (intro conjI impI)
  show eq: "fst (cmpfiles env a b names sh c) =
     (names_with (Inr True) names (cmp_trace env a b sh names c),
      names_with (Inr False) names (cmp_trace env a b sh names c),
      names_with (Inl OSError) names (cmp_trace env a b sh names c))"
    by (simp add: cmpfiles_def cmpfiles_loop_eq)
  show len: "length (cmp_trace env a b sh names c) = length names"
    by (rule length_cmp_trace)
  show "length (fst (fst (cmpfiles env a b names sh c)))
       + length (fst (snd (fst (cmpfiles env a b names sh c))))
       + length (snd (snd (fst (cmpfiles env a b names sh c)))) = length names"
    using length_names_with [OF len] by (simp add: eq)
next
  assume "cache_ok env c"
  then show "fst (cmpfiles env a b names sh c) =
          (filter (\<lambda>x. fresh_cmp env a b sh x = Inr True) names,
           filter (\<lambda>x. fresh_cmp env a b sh x = Inr False) names,
           filter (\<lambda>x. fresh_cmp env a b sh x = Inl OSError) names)"
    by (rule cmpfiles_fresh)
qed

lemma demo_join: "path_join demo_os a x = posix_join a x"
  by (simp add: demo_os_def)

lemma demo_fresh_AB:
  "fresh_cmp demo_os ''A'' ''B'' False ''x.txt'' = Inr False"
  "fresh_cmp demo_os ''A'' ''B'' False ''y.txt'' = Inr True"
  "fresh_cmp demo_os ''A'' ''B'' False ''z.txt'' = Inr False"
  "fresh_cmp demo_os ''A'' ''B'' False ''gone'' = Inl OSError"
  by (simp_all add: fresh_cmp_def cmp_def demo_os_def posix_join_def demo_stat_def demo_open_def
      u_sig_def reg_file_def S_IFMT_def S_IFREG_def u_do_cmp_def do_cmp_loop_eq Let_def)

theorem cmpfiles_partitions_by_outcome_witness:
  "fst (cmpfiles demo_os ''A'' ''B'' [''x.txt'', ''gone'', ''y.txt'', ''z.txt''] False fmempty)
     = ([''y.txt''], [''x.txt'', ''z.txt''], [''gone''])"
proof -
  note inst = cmpfiles_partitions_by_outcome [of demo_os "''A''" "''B''"
      "[''x.txt'', ''gone'', ''y.txt'', ''z.txt'']" False fmempty]
  from inst [THEN conjunct2, THEN conjunct2, THEN conjunct2, THEN mp, OF cache_ok_empty]
  show ?thesis by (simp add: demo_fresh_AB)
qed

section \<open>The partitions of the directory classifier\<close>

lemma dircmp_attrs_eval:
  assumes "phase0 env d = Inr (ll, rl)" and "phase1 env ll rl = Inr (cm, lo, ro)"
    and "phase2 env d cm = (ds, fs, us)" and "fst (phase3 env d fs c) = (sm, df, fn)"
  shows "fst (dircmp_attrs env d c) =
     Inr \<lparr>left_list = ll, right_list = rl, common = cm, left_only = lo, right_only = ro,
          common_dirs = ds, common_files = fs, common_funny = us,
          same_files = sm, diff_files = df, funny_files = fn\<rparr>"
  using assms by (cases "phase3 env d fs c") (simp add: dircmp_attrs_def)

text \<open>
  Claim C1.  When both directories can be listed, the classifier returns, and with
  \<open>N\<close> the case normalisation: the filtered listings hold the listed names that are
  neither hidden nor ignored; the normalised names of \<open>common\<close>, \<open>left_only\<close> and
  \<open>right_only\<close> are the normalised names on both sides, on the left only and on the
  right only, so the three are pairwise disjoint and their union is the union of the two
  filtered listings up to normalisation; each output name is a name of its own side's
  listing in its original spelling; and where \<open>N\<close> is injective on the listed names
  (as on POSIX, where it is the identity) the union equals the union of the listings.
\<close>

theorem classifier_partition:
  assumes "os_listdir env (left d) = Some L" and "os_listdir env (right d) = Some R"
  shows "\<exists>r. fst (dircmp_attrs env d c) = Inr r
    \<and> set (left_list r) = filtered_names d L \<and> set (right_list r) = filtered_names d R
    \<and> path_normcase env ` set (common r)
        = path_normcase env ` set (left_list r) \<inter> path_normcase env ` set (right_list r)
    \<and> path_normcase env ` set (left_only r)
        = path_normcase env ` set (left_list r) - path_normcase env ` set (right_list r)
    \<and> path_normcase env ` set (right_only r)
        = path_normcase env ` set (right_list r) - path_normcase env ` set (left_list r)
    \<and> set (common r) \<subseteq> set (left_list r) \<and> set (left_only r) \<subseteq> set (left_list r)
    \<and> set (right_only r) \<subseteq> set (right_list r)
    \<and> set (common r) \<inter> set (left_only r) = {} \<and> set (common r) \<inter> set (right_only r) = {}
    \<and> set (left_only r) \<inter> set (right_only r) = {}
    \<and> path_normcase env ` (set (common r) \<union> set (left_only r) \<union> set (right_only r))
        = path_normcase env ` (set (left_list r) \<union> set (right_list r))
    \<and> (inj_on (path_normcase env) (set (left_list r) \<union> set (right_list r)) \<longrightarrow>
         set (common r) \<union> set (left_only r) \<union> set (right_only r)
           = set (left_list r) \<union> set (right_list r))"
proof -
  let ?N = "path_normcase env"
  obtain ll rl where p0: "phase0 env d = Inr (ll, rl)"
    and ll: "set ll = filtered_names d L" and rl: "set rl = filtered_names d R"
    using phase0_listing [OF assms] by blast
  obtain cm lo ro where p1: "phase1 env ll rl = Inr (cm, lo, ro)"
    using phase1_total by blast
  obtain ds fs us where p2: "phase2 env d cm = (ds, fs, us)"
    by (cases "phase2 env d cm")
  obtain sm df fn where p3: "fst (phase3 env d fs c) = (sm, df, fn)"
    by (cases "fst (phase3 env d fs c)")
  let ?r = "\<lparr>left_list = ll, right_list = rl, common = cm, left_only = lo, right_only = ro,
          common_dirs = ds, common_files = fs, common_funny = us,
          same_files = sm, diff_files = df, funny_files = fn\<rparr>"
  have r: "fst (dircmp_attrs env d c) = Inr ?r"
    by (rule dircmp_attrs_eval [OF p0 p1 p2 p3])
  note s = phase1_sets [OF p1]
  have cmN: "?N ` set cm = ?N ` set ll \<inter> ?N ` set rl" by (rule s(1))
  have loN: "?N ` set lo = ?N ` set ll - ?N ` set rl" by (rule s(2))
  have roN: "?N ` set ro = ?N ` set rl - ?N ` set ll" by (rule s(3))
  have sub: "set cm \<subseteq> set ll" "set lo \<subseteq> set ll" "set ro \<subseteq> set rl"
    by (rule s(4), rule s(5), rule s(6))
  have d1: "set cm \<inter> set lo = {}"
  proof (rule ccontr)
    assume "set cm \<inter> set lo \<noteq> {}"
    then obtain x where "x \<in> set cm" "x \<in> set lo" by blast
    then have "?N x \<in> ?N ` set cm" "?N x \<in> ?N ` set lo" by blast+
    then show False using cmN loN by blast
  qed
  have d2: "set cm \<inter> set ro = {}"
  proof (rule ccontr)
    assume "set cm \<inter> set ro \<noteq> {}"
    then obtain x where "x \<in> set cm" "x \<in> set ro" by blast
    then have "?N x \<in> ?N ` set cm" "?N x \<in> ?N ` set ro" by blast+
    then show False using cmN roN by blast
  qed
  have d3: "set lo \<inter> set ro = {}"
  proof (rule ccontr)
    assume "set lo \<inter> set ro \<noteq> {}"
    then obtain x where "x \<in> set lo" "x \<in> set ro" by blast
    then have "?N x \<in> ?N ` set lo" "?N x \<in> ?N ` set ro" by blast+
    then show False using loN roN by blast
  qed
  have un: "?N ` (set cm \<union> set lo \<union> set ro) = ?N ` (set ll \<union> set rl)"
    unfolding image_Un cmN loN roN by blast
  have raw: "set cm \<union> set lo \<union> set ro = set ll \<union> set rl"
    if inj: "inj_on ?N (set ll \<union> set rl)"
  proof
    show "set cm \<union> set lo \<union> set ro \<subseteq> set ll \<union> set rl" using sub by blast
    show "set ll \<union> set rl \<subseteq> set cm \<union> set lo \<union> set ro"
    proof
      fix x assume x: "x \<in> set ll \<union> set rl"
      then have "?N x \<in> ?N ` (set cm \<union> set lo \<union> set ro)" using un by blast
      then obtain y where y: "y \<in> set cm \<union> set lo \<union> set ro" and eq: "?N x = ?N y" by blast
      from y sub have "y \<in> set ll \<union> set rl" by blast
      with inj x eq have "x = y" by (auto dest: inj_onD)
      with y show "x \<in> set cm \<union> set lo \<union> set ro" by simp
    qed
  qed
  show ?thesis
    by (rule exI [of _ ?r]) (use r ll rl cmN loN roN sub d1 d2 d3 un raw in simp)
qed

text \<open>
  Claim C2.  \<open>common_dirs\<close>, \<open>common_files\<close> and \<open>common_funny\<close> are \<open>common\<close> filtered,
  in order, by: directory on both sides; regular file on both sides; neither.  They are
  pairwise disjoint and their union is \<open>common\<close>.  A common name that cannot be stat'd
  on a side, or whose type tags differ, or whose type tag is neither that of a directory
  nor that of a regular file, is in \<open>common_funny\<close> and in neither of the other two.
\<close>

theorem common_partition:
  assumes "fst (dircmp_attrs env d c) = Inr r"
  shows "common_dirs r = filter (both_type env d S_IFDIR) (common r)
    \<and> common_files r = filter (both_type env d S_IFREG) (common r)
    \<and> common_funny r
        = filter (\<lambda>x. \<not> both_type env d S_IFDIR x \<and> \<not> both_type env d S_IFREG x) (common r)
    \<and> set (common_dirs r) \<inter> set (common_files r) = {}
    \<and> set (common_dirs r) \<inter> set (common_funny r) = {}
    \<and> set (common_files r) \<inter> set (common_funny r) = {}
    \<and> set (common_dirs r) \<union> set (common_files r) \<union> set (common_funny r) = set (common r)
    \<and> (\<forall>x \<in> set (common r). \<forall>sa sb.
          os_stat env (path_join env (left d) x) = None
          \<or> os_stat env (path_join env (right d) x) = None
          \<or> (os_stat env (path_join env (left d) x) = Some sa
              \<and> os_stat env (path_join env (right d) x) = Some sb
              \<and> (S_IFMT (st_mode sa) \<noteq> S_IFMT (st_mode sb)
                  \<or> (S_IFMT (st_mode sa) \<noteq> S_IFDIR \<and> S_IFMT (st_mode sa) \<noteq> S_IFREG)))
          \<longrightarrow> x \<in> set (common_funny r) \<and> x \<notin> set (common_dirs r)
              \<and> x \<notin> set (common_files r))"
proof -
  have p2: "phase2 env d (common r) = (common_dirs r, common_files r, common_funny r)"
    by (rule dircmp_attrsD(3) [OF assms])
  have ds: "common_dirs r = filter (both_type env d S_IFDIR) (common r)"
    and fs: "common_files r = filter (both_type env d S_IFREG) (common r)"
    and us: "common_funny r
        = filter (\<lambda>x. \<not> both_type env d S_IFDIR x \<and> \<not> both_type env d S_IFREG x) (common r)"
    using p2 by (simp_all add: phase2_eq)
  have excl: "\<And>x. both_type env d S_IFDIR x \<Longrightarrow> \<not> both_type env d S_IFREG x"
    by (rule both_type_excl)
  have a: "set (common_dirs r) \<inter> set (common_files r) = {}" using excl by (auto simp: ds fs)
  have b: "set (common_dirs r) \<inter> set (common_funny r) = {}" by (auto simp: ds us)
  have c: "set (common_files r) \<inter> set (common_funny r) = {}" by (auto simp: fs us)
  have u: "set (common_dirs r) \<union> set (common_files r) \<union> set (common_funny r) = set (common r)"
    by (auto simp: ds fs us)
  have f: "\<forall>x \<in> set (common r). \<forall>sa sb.
          os_stat env (path_join env (left d) x) = None
          \<or> os_stat env (path_join env (right d) x) = None
          \<or> (os_stat env (path_join env (left d) x) = Some sa
              \<and> os_stat env (path_join env (right d) x) = Some sb
              \<and> (S_IFMT (st_mode sa) \<noteq> S_IFMT (st_mode sb)
                  \<or> (S_IFMT (st_mode sa) \<noteq> S_IFDIR \<and> S_IFMT (st_mode sa) \<noteq> S_IFREG)))
          \<longrightarrow> x \<in> set (common_funny r) \<and> x \<notin> set (common_dirs r)
              \<and> x \<notin> set (common_files r)"
    by (auto simp: ds fs us both_type_def split: option.splits)
  from ds fs us a b c u f show ?thesis by blast
qed

lemma nt_normcase_demo:
  "nt_normcase ''README'' = ''readme''" "nt_normcase ''readme'' = ''readme''"
  "nt_normcase ''a.txt'' = ''a.txt''" "nt_normcase ''b.txt'' = ''b.txt''"
  by (simp_all add: nt_normcase_def ascii_lower_def less_eq_char_def char_of_def bit_Suc_0_iff)


lemma demo_LR_phase0:
  "phase0 demo_nt (dircmp_init ''L'' ''R'' None None)
     = Inr ([''README'', ''a.txt''], [''b.txt'', ''readme''])"
  by (simp add: phase0_def demo_nt_def demo_os_def demo_listdir_def dircmp_init_def u_filter_def
      curdir_def pardir_def DEFAULT_IGNORES_def less_eq_char_def less_char_def)

lemma demo_LR_phase1:
  "phase1 demo_nt [''README'', ''a.txt''] [''b.txt'', ''readme'']
     = Inr ([''README''], [''a.txt''], [''b.txt''])"
  by (simp add: phase1_eq demo_nt_def dict_zip_def nt_normcase_demo)

lemma dircmp_init_fields:
  "left (dircmp_init a b i h) = a" "right (dircmp_init a b i h) = b"
  by (simp_all add: dircmp_init_def)

lemma phase3_Nil: "fst (phase3 env d [] c) = ([], [], [])"
  by (simp add: phase3_def cmpfiles_def)

lemma phase3_fresh:
  "fst (phase3 env d fs fmempty) =
     (filter (\<lambda>x. fresh_cmp env (left d) (right d) False x = Inr True) fs,
      filter (\<lambda>x. fresh_cmp env (left d) (right d) False x = Inr False) fs,
      filter (\<lambda>x. fresh_cmp env (left d) (right d) False x = Inl OSError) fs)"
  by (simp add: phase3_def cmpfiles_fresh [OF cache_ok_empty])

lemma demo_listdir_LR:
  "os_listdir demo_nt ''L'' = Some [''README'', ''a.txt'']"
  "os_listdir demo_nt ''R'' = Some [''readme'', ''b.txt'']"
  by (simp_all add: demo_nt_def demo_os_def demo_listdir_def)

lemma demo_LR_phase2:
  "phase2 demo_nt (dircmp_init ''L'' ''R'' None None) [''README''] = ([], [], [''README''])"
  by (simp add: phase2_eq both_type_def demo_nt_def demo_os_def posix_join_def demo_stat_def
      dircmp_init_def)

lemma demo_LR_attrs:
  "fst (dircmp_attrs demo_nt (dircmp_init ''L'' ''R'' None None) fmempty) =
   Inr \<lparr>left_list = [''README'', ''a.txt''], right_list = [''b.txt'', ''readme''],
        common = [''README''], left_only = [''a.txt''], right_only = [''b.txt''],
        common_dirs = [], common_files = [], common_funny = [''README''],
        same_files = [], diff_files = [], funny_files = []\<rparr>"
  by (rule dircmp_attrs_eval [OF demo_LR_phase0 demo_LR_phase1 demo_LR_phase2 phase3_Nil])

lemma demo_nt_normcase: "path_normcase demo_nt = nt_normcase"
  by (simp add: demo_nt_def)

theorem classifier_partition_witness:
  "\<exists>r. fst (dircmp_attrs demo_nt (dircmp_init ''L'' ''R'' None None) fmempty) = Inr r
     \<and> common r = [''README''] \<and> left_only r = [''a.txt''] \<and> right_only r = [''b.txt'']
     \<and> path_normcase demo_nt ` (set (common r) \<union> set (left_only r) \<union> set (right_only r))
         = path_normcase demo_nt ` (set (left_list r) \<union> set (right_list r))"
proof -
  let ?d = "dircmp_init ''L'' ''R'' None None"
  have l: "os_listdir demo_nt (left ?d) = Some [''README'', ''a.txt'']"
    and r: "os_listdir demo_nt (right ?d) = Some [''readme'', ''b.txt'']"
    by (simp_all add: dircmp_init_fields demo_listdir_LR)
  from classifier_partition [OF l r, of fmempty]
  have "\<exists>r. fst (dircmp_attrs demo_nt ?d fmempty) = Inr r
     \<and> path_normcase demo_nt ` (set (common r) \<union> set (left_only r) \<union> set (right_only r))
         = path_normcase demo_nt ` (set (left_list r) \<union> set (right_list r))"
    apply (elim exE conjE)
    apply (intro exI conjI)
     apply assumption
    apply assumption
    done
  then show ?thesis
    by (simp add: demo_LR_attrs)
qed

lemma demo_listdir_AB:
  "os_listdir demo_os ''A''
     = Some [''y.txt'', ''x.txt'', ''z.txt'', ''sub'', ''.git'', ''f'', ''p'', ''gone'', ''only_a'']"
  "os_listdir demo_os ''B''
     = Some [''x.txt'', ''only_b'', ''y.txt'', ''z.txt'', ''sub'', ''f'', ''p'', ''gone'', ''tags'']"
  by (simp_all add: demo_os_def demo_listdir_def)

lemma demo_AB_phase0:
  "phase0 demo_os (dircmp_init ''A'' ''B'' None None) =
   Inr ([''f'', ''gone'', ''only_a'', ''p'', ''sub'', ''x.txt'', ''y.txt'', ''z.txt''],
        [''f'', ''gone'', ''only_b'', ''p'', ''sub'', ''x.txt'', ''y.txt'', ''z.txt''])"
  by (simp add: phase0_def demo_os_def demo_listdir_def dircmp_init_def u_filter_def
      curdir_def pardir_def DEFAULT_IGNORES_def less_eq_char_def less_char_def)

lemma demo_AB_phase1:
  "phase1 demo_os [''f'', ''gone'', ''only_a'', ''p'', ''sub'', ''x.txt'', ''y.txt'', ''z.txt'']
     [''f'', ''gone'', ''only_b'', ''p'', ''sub'', ''x.txt'', ''y.txt'', ''z.txt'']
   = Inr ([''f'', ''gone'', ''p'', ''sub'', ''x.txt'', ''y.txt'', ''z.txt''],
          [''only_a''], [''only_b''])"
  by (simp add: phase1_eq demo_os_def dict_zip_def posix_normcase_def)

lemma demo_AB_types:
  "\<not> both_type demo_os (dircmp_init ''A'' ''B'' None None) t ''f''"
  "\<not> both_type demo_os (dircmp_init ''A'' ''B'' None None) t ''gone''"
  "both_type demo_os (dircmp_init ''A'' ''B'' None None) t ''p'' = (t = 4096)"
  "both_type demo_os (dircmp_init ''A'' ''B'' None None) t ''sub'' = (t = S_IFDIR)"
  "both_type demo_os (dircmp_init ''A'' ''B'' None None) t ''x.txt'' = (t = S_IFREG)"
  "both_type demo_os (dircmp_init ''A'' ''B'' None None) t ''y.txt'' = (t = S_IFREG)"
  "both_type demo_os (dircmp_init ''A'' ''B'' None None) t ''z.txt'' = (t = S_IFREG)"
  by (auto simp: both_type_def demo_os_def posix_join_def demo_stat_def dircmp_init_def
      reg_file_def directory_def fifo_def S_IFMT_def S_IFDIR_def S_IFREG_def)

lemma type_consts_neq: "S_IFDIR \<noteq> S_IFREG" "S_IFREG \<noteq> S_IFDIR" "S_IFDIR \<noteq> 4096" "S_IFREG \<noteq> 4096"
  by (simp_all add: S_IFDIR_def S_IFREG_def)

lemma demo_AB_phase2:
  "phase2 demo_os (dircmp_init ''A'' ''B'' None None)
     [''f'', ''gone'', ''p'', ''sub'', ''x.txt'', ''y.txt'', ''z.txt'']
   = ([''sub''], [''x.txt'', ''y.txt'', ''z.txt''], [''f'', ''gone'', ''p''])"
  by (simp add: phase2_eq demo_AB_types type_consts_neq)

lemma demo_AB_phase3:
  "fst (phase3 demo_os (dircmp_init ''A'' ''B'' None None) [''x.txt'', ''y.txt'', ''z.txt''] fmempty)
   = ([''y.txt''], [''x.txt'', ''z.txt''], [])"
  by (simp add: phase3_fresh dircmp_init_fields demo_fresh_AB)

lemma demo_AB_attrs:
  "fst (dircmp_attrs demo_os (dircmp_init ''A'' ''B'' None None) fmempty) =
   Inr \<lparr>left_list = [''f'', ''gone'', ''only_a'', ''p'', ''sub'', ''x.txt'', ''y.txt'', ''z.txt''],
        right_list = [''f'', ''gone'', ''only_b'', ''p'', ''sub'', ''x.txt'', ''y.txt'', ''z.txt''],
        common = [''f'', ''gone'', ''p'', ''sub'', ''x.txt'', ''y.txt'', ''z.txt''],
        left_only = [''only_a''], right_only = [''only_b''],
        common_dirs = [''sub''],
        common_files = [''x.txt'', ''y.txt'', ''z.txt''],
        common_funny = [''f'', ''gone'', ''p''], same_files = [''y.txt''],
        diff_files = [''x.txt'', ''z.txt''], funny_files = []\<rparr>"
  by (rule dircmp_attrs_eval [OF demo_AB_phase0 demo_AB_phase1 demo_AB_phase2 demo_AB_phase3])

theorem common_partition_witness:
  "fst (dircmp_attrs demo_os (dircmp_init ''A'' ''B'' None None) fmempty) =
   Inr \<lparr>left_list = [''f'', ''gone'', ''only_a'', ''p'', ''sub'', ''x.txt'', ''y.txt'', ''z.txt''],
        right_list = [''f'', ''gone'', ''only_b'', ''p'', ''sub'', ''x.txt'', ''y.txt'', ''z.txt''],
        common = [''f'', ''gone'', ''p'', ''sub'', ''x.txt'', ''y.txt'', ''z.txt''],
        left_only = [''only_a''], right_only = [''only_b''],
        common_dirs = [''sub''],
        common_files = [''x.txt'', ''y.txt'', ''z.txt''],
        common_funny = [''f'', ''gone'', ''p''], same_files = [''y.txt''],
        diff_files = [''x.txt'', ''z.txt''], funny_files = []\<rparr>
   \<and> filter (both_type demo_os (dircmp_init ''A'' ''B'' None None) S_IFDIR)
        [''f'', ''gone'', ''p'', ''sub'', ''x.txt'', ''y.txt'', ''z.txt''] = [''sub'']
   \<and> filter (both_type demo_os (dircmp_init ''A'' ''B'' None None) S_IFREG)
        [''f'', ''gone'', ''p'', ''sub'', ''x.txt'', ''y.txt'', ''z.txt'']
        = [''x.txt'', ''y.txt'', ''z.txt'']"
proof -
  note inst = common_partition [OF demo_AB_attrs]
  have 1: "filter (both_type demo_os (dircmp_init ''A'' ''B'' None None) S_IFDIR)
        [''f'', ''gone'', ''p'', ''sub'', ''x.txt'', ''y.txt'', ''z.txt''] = [''sub'']"
    using inst [THEN conjunct1] by simp
  have 2: "filter (both_type demo_os (dircmp_init ''A'' ''B'' None None) S_IFREG)
        [''f'', ''gone'', ''p'', ''sub'', ''x.txt'', ''y.txt'', ''z.txt'']
        = [''x.txt'', ''y.txt'', ''z.txt'']"
    using inst [THEN conjunct2, THEN conjunct1] by simp
  from demo_AB_attrs 1 2 show ?thesis by (intro conjI)
qed

section \<open>A directory compared with itself\<close>

lemma phase0_same_side:
  assumes "right d = left d" and "phase0 env d = Inr (ll, rl)"
  shows "rl = ll"
  using assms by (auto simp: phase0_def split: option.splits)

lemma phase1_same_lists:
  assumes "phase1 env ll ll = Inr (cm, lo, ro)"
  shows "lo = []" and "ro = []"
proof -
  let ?a = "dict_zip (map (path_normcase env) ll) ll"
  have keys: "\<And>p. p \<in> set ?a \<Longrightarrow> fst p \<in> path_normcase env ` set ll"
    using dict_zip_keys [of "path_normcase env" ll] by blast
  have "filter (\<lambda>p. fst p \<notin> path_normcase env ` set ll) ?a = []"
    using keys by (simp add: filter_empty_conv)
  then show "lo = []" and "ro = []"
    using assms by (simp_all add: phase1_eq Let_def)
qed

lemma cmp_self_fresh:
  assumes "os_stat env p = Some st" and "S_IFMT (st_mode st) = S_IFREG"
  shows "fst (cmp env p p False fmempty)
     = (case os_open env p of None \<Rightarrow> Inl OSError | Some b \<Rightarrow> Inr True)"
  using assms
  by (simp add: cmp_def u_sig_def u_do_cmp_def do_cmp_loop_eq Let_def split: option.splits)

lemma cmp_deep_True:
  assumes "fst (cmp env f1 f2 False fmempty) = Inr True"
  shows "\<exists>b. os_open env f1 = Some b \<and> os_open env f2 = Some b"
  using assms
  by (auto simp: cmp_def u_do_cmp_def do_cmp_loop_eq Let_def
      split: option.splits if_splits sum.splits)

text \<open>
  Claim C9 (amended).  When the same path is given as both sides, \<open>left_only\<close> and
  \<open>right_only\<close> are empty; \<open>common_funny\<close> holds the common names that are not a
  directory and not a regular file (a name that cannot be stat'd among them); and on a
  cache coherent with the file system \<open>diff_files\<close> is empty, \<open>same_files\<close> holds the
  common files that can be opened and \<open>funny_files\<close> those that cannot.  So when every
  common name is a directory or a regular file, \<open>common_funny\<close> is empty, and when every
  common file can be opened, \<open>funny_files\<close> is empty and every common file is in
  \<open>same_files\<close>.
\<close>

theorem self_comparison:
  assumes "right d = left d" and "fst (dircmp_attrs env d c) = Inr r"
  shows "left_only r = [] \<and> right_only r = []
    \<and> common_funny r
        = filter (\<lambda>x. \<not> both_type env d S_IFDIR x \<and> \<not> both_type env d S_IFREG x) (common r)
    \<and> ((\<forall>x \<in> set (common r). both_type env d S_IFDIR x \<or> both_type env d S_IFREG x) \<longrightarrow>
         common_funny r = [])
    \<and> (cache_ok env c \<longrightarrow>
         diff_files r = []
         \<and> same_files r
             = filter (\<lambda>x. os_open env (path_join env (left d) x) \<noteq> None) (common_files r)
         \<and> funny_files r
             = filter (\<lambda>x. os_open env (path_join env (left d) x) = None) (common_files r)
         \<and> ((\<forall>x \<in> set (common_files r). os_open env (path_join env (left d) x) \<noteq> None) \<longrightarrow>
              funny_files r = [] \<and> same_files r = common_files r))"
proof -
  have p0: "phase0 env d = Inr (left_list r, right_list r)"
    and p1: "phase1 env (left_list r) (right_list r) = Inr (common r, left_only r, right_only r)"
    and p2: "phase2 env d (common r) = (common_dirs r, common_files r, common_funny r)"
    and p3: "fst (phase3 env d (common_files r) c) = (same_files r, diff_files r, funny_files r)"
    by (rule dircmp_attrsD [OF assms(2)])+
  have "right_list r = left_list r" by (rule phase0_same_side [OF assms(1) p0])
  with p1 have "phase1 env (left_list r) (left_list r) = Inr (common r, left_only r, right_only r)"
    by simp
  then have lo: "left_only r = []" and ro: "right_only r = []"
    by (rule phase1_same_lists)+
  have fs: "common_files r = filter (both_type env d S_IFREG) (common r)"
    and us: "common_funny r
        = filter (\<lambda>x. \<not> both_type env d S_IFDIR x \<and> \<not> both_type env d S_IFREG x) (common r)"
    using p2 by (simp_all add: phase2_eq)
  have us_empty: "common_funny r = []"
    if "\<forall>x \<in> set (common r). both_type env d S_IFDIR x \<or> both_type env d S_IFREG x"
    using that by (simp add: us filter_empty_conv)
  have files: "diff_files r = []
         \<and> same_files r
             = filter (\<lambda>x. os_open env (path_join env (left d) x) \<noteq> None) (common_files r)
         \<and> funny_files r
             = filter (\<lambda>x. os_open env (path_join env (left d) x) = None) (common_files r)
         \<and> ((\<forall>x \<in> set (common_files r). os_open env (path_join env (left d) x) \<noteq> None) \<longrightarrow>
              funny_files r = [] \<and> same_files r = common_files r)"
    if ok: "cache_ok env c"
  proof -
    have fresh: "fresh_cmp env (left d) (right d) False x
        = (case os_open env (path_join env (left d) x) of None \<Rightarrow> Inl OSError | Some b \<Rightarrow> Inr True)"
      if "x \<in> set (common_files r)" for x
    proof -
      from that have "both_type env d S_IFREG x" by (simp add: fs)
      then obtain st where "os_stat env (path_join env (left d) x) = Some st"
        and "S_IFMT (st_mode st) = S_IFREG"
        by (auto simp: both_type_def split: option.splits)
      then show ?thesis
        using cmp_self_fresh [of env "path_join env (left d) x" st]
        by (simp add: fresh_cmp_def assms(1))
    qed
    have all: "(same_files r, diff_files r, funny_files r) =
       (filter (\<lambda>x. fresh_cmp env (left d) (right d) False x = Inr True) (common_files r),
        filter (\<lambda>x. fresh_cmp env (left d) (right d) False x = Inr False) (common_files r),
        filter (\<lambda>x. fresh_cmp env (left d) (right d) False x = Inl OSError) (common_files r))"
      using p3 cmpfiles_fresh [OF ok, of "left d" "right d" "common_files r" False]
      by (simp add: phase3_def)
    have same: "same_files r
        = filter (\<lambda>x. os_open env (path_join env (left d) x) \<noteq> None) (common_files r)"
    proof -
      have "same_files r
          = filter (\<lambda>x. fresh_cmp env (left d) (right d) False x = Inr True) (common_files r)"
        using all by simp
      also have "\<dots> = filter (\<lambda>x. os_open env (path_join env (left d) x) \<noteq> None) (common_files r)"
        by (rule filter_cong [OF refl]) (auto simp: fresh split: option.splits)
      finally show ?thesis .
    qed
    have diff: "diff_files r = []"
    proof -
      have "diff_files r
          = filter (\<lambda>x. fresh_cmp env (left d) (right d) False x = Inr False) (common_files r)"
        using all by simp
      also have "\<dots> = []"
        by (auto simp: filter_empty_conv fresh split: option.splits)
      finally show ?thesis .
    qed
    have funny: "funny_files r
        = filter (\<lambda>x. os_open env (path_join env (left d) x) = None) (common_files r)"
    proof -
      have "funny_files r
          = filter (\<lambda>x. fresh_cmp env (left d) (right d) False x = Inl OSError) (common_files r)"
        using all by simp
      also have "\<dots> = filter (\<lambda>x. os_open env (path_join env (left d) x) = None) (common_files r)"
        by (rule filter_cong [OF refl]) (auto simp: fresh split: option.splits)
      finally show ?thesis .
    qed
    have readable: "funny_files r = [] \<and> same_files r = common_files r"
      if "\<forall>x \<in> set (common_files r). os_open env (path_join env (left d) x) \<noteq> None"
      using that by (simp add: same funny filter_empty_conv)
    from same diff funny readable show ?thesis by blast
  qed
  from lo ro us us_empty files show ?thesis by blast
qed

lemma demo_SS_phase0:
  "phase0 demo_os (dircmp_init ''S'' ''S'' None None)
     = Inr ([''f'', ''locked'', ''p'', ''sub''], [''f'', ''locked'', ''p'', ''sub''])"
  by (simp add: phase0_def demo_os_def demo_listdir_def dircmp_init_def u_filter_def
      curdir_def pardir_def DEFAULT_IGNORES_def less_eq_char_def less_char_def)

lemma demo_SS_phase1:
  "phase1 demo_os [''f'', ''locked'', ''p'', ''sub''] [''f'', ''locked'', ''p'', ''sub'']
     = Inr ([''f'', ''locked'', ''p'', ''sub''], [], [])"
  by (simp add: phase1_eq demo_os_def dict_zip_def posix_normcase_def)

lemma demo_SS_types:
  "both_type demo_os (dircmp_init ''S'' ''S'' None None) t ''f'' = (t = S_IFREG)"
  "both_type demo_os (dircmp_init ''S'' ''S'' None None) t ''locked'' = (t = S_IFREG)"
  "both_type demo_os (dircmp_init ''S'' ''S'' None None) t ''p'' = (t = 4096)"
  "both_type demo_os (dircmp_init ''S'' ''S'' None None) t ''sub'' = (t = S_IFDIR)"
  by (auto simp: both_type_def demo_os_def posix_join_def demo_stat_def dircmp_init_def
      reg_file_def directory_def fifo_def S_IFMT_def S_IFDIR_def S_IFREG_def)

lemma demo_SS_phase2:
  "phase2 demo_os (dircmp_init ''S'' ''S'' None None) [''f'', ''locked'', ''p'', ''sub'']
     = ([''sub''], [''f'', ''locked''], [''p''])"
  by (simp add: phase2_eq demo_SS_types type_consts_neq)

lemma demo_fresh_SS:
  "fresh_cmp demo_os ''S'' ''S'' False ''f'' = Inr True"
  "fresh_cmp demo_os ''S'' ''S'' False ''locked'' = Inl OSError"
  by (simp_all add: fresh_cmp_def cmp_def demo_os_def posix_join_def demo_stat_def demo_open_def
      u_sig_def reg_file_def S_IFMT_def S_IFREG_def u_do_cmp_def do_cmp_loop_eq Let_def)

lemma demo_SS_phase3:
  "fst (phase3 demo_os (dircmp_init ''S'' ''S'' None None) [''f'', ''locked''] fmempty)
     = ([''f''], [], [''locked''])"
  by (simp add: phase3_fresh dircmp_init_fields demo_fresh_SS)

lemma demo_TT_phase0:
  "phase0 demo_os (dircmp_init ''T'' ''T'' None None) = Inr ([''a'', ''d''], [''a'', ''d''])"
  by (simp add: phase0_def demo_os_def demo_listdir_def dircmp_init_def u_filter_def
      curdir_def pardir_def DEFAULT_IGNORES_def less_eq_char_def less_char_def)

lemma demo_TT_phase1:
  "phase1 demo_os [''a'', ''d''] [''a'', ''d''] = Inr ([''a'', ''d''], [], [])"
  by (simp add: phase1_eq demo_os_def dict_zip_def posix_normcase_def)

lemma demo_TT_types:
  "both_type demo_os (dircmp_init ''T'' ''T'' None None) t ''a'' = (t = S_IFREG)"
  "both_type demo_os (dircmp_init ''T'' ''T'' None None) t ''d'' = (t = S_IFDIR)"
  by (auto simp: both_type_def demo_os_def posix_join_def demo_stat_def dircmp_init_def
      reg_file_def directory_def S_IFMT_def S_IFDIR_def S_IFREG_def)

lemma demo_TT_phase2:
  "phase2 demo_os (dircmp_init ''T'' ''T'' None None) [''a'', ''d''] = ([''d''], [''a''], [])"
  by (simp add: phase2_eq demo_TT_types type_consts_neq)

lemma demo_fresh_TT: "fresh_cmp demo_os ''T'' ''T'' False ''a'' = Inr True"
  by (simp add: fresh_cmp_def cmp_def demo_os_def posix_join_def demo_stat_def demo_open_def
      u_sig_def reg_file_def S_IFMT_def S_IFREG_def u_do_cmp_def do_cmp_loop_eq Let_def)

lemma demo_TT_phase3:
  "fst (phase3 demo_os (dircmp_init ''T'' ''T'' None None) [''a''] fmempty) = ([''a''], [], [])"
  by (simp add: phase3_fresh dircmp_init_fields demo_fresh_TT)

lemma demo_TT_attrs:
  "fst (dircmp_attrs demo_os (dircmp_init ''T'' ''T'' None None) fmempty) =
   Inr \<lparr>left_list = [''a'', ''d''], right_list = [''a'', ''d''],
        common = [''a'', ''d''], left_only = [], right_only = [],
        common_dirs = [''d''], common_files = [''a''], common_funny = [],
        same_files = [''a''], diff_files = [], funny_files = []\<rparr>"
  by (rule dircmp_attrs_eval [OF demo_TT_phase0 demo_TT_phase1 demo_TT_phase2 demo_TT_phase3])

lemma demo_T_open: "os_open demo_os (path_join demo_os ''T'' ''a'') \<noteq> None"
  by (simp add: demo_os_def posix_join_def demo_open_def)

theorem self_comparison_witness:
  "right (dircmp_init ''T'' ''T'' None None) = left (dircmp_init ''T'' ''T'' None None)
   \<and> cache_ok demo_os fmempty
   \<and> fst (dircmp_attrs demo_os (dircmp_init ''T'' ''T'' None None) fmempty) =
      Inr \<lparr>left_list = [''a'', ''d''], right_list = [''a'', ''d''],
           common = [''a'', ''d''], left_only = [], right_only = [],
           common_dirs = [''d''], common_files = [''a''], common_funny = [],
           same_files = [''a''], diff_files = [], funny_files = []\<rparr>
   \<and> filter (\<lambda>x. os_open demo_os (path_join demo_os ''T'' x) \<noteq> None) [''a''] = [''a'']"
proof -
  let ?d = "dircmp_init ''T'' ''T'' None None"
  let ?r = "\<lparr>left_list = [''a'', ''d''], right_list = [''a'', ''d''],
           common = [''a'', ''d''], left_only = [], right_only = [],
           common_dirs = [''d''], common_files = [''a''], common_funny = [],
           same_files = [''a''], diff_files = [], funny_files = []\<rparr>"
  have eq: "right ?d = left ?d" by (simp add: dircmp_init_fields)
  note inst = self_comparison [OF eq demo_TT_attrs]
  have r1: "same_files ?r
      = filter (\<lambda>x. os_open demo_os (path_join demo_os (left ?d) x) \<noteq> None) (common_files ?r)"
    by (rule inst [THEN conjunct2, THEN conjunct2, THEN conjunct2, THEN conjunct2, THEN mp,
      OF cache_ok_empty, THEN conjunct2, THEN conjunct1])
  have r2: "same_files ?r = [''a'']" "common_files ?r = [''a'']" "left ?d = ''T''"
    by (simp_all add: dircmp_init_fields)
  from r1 have "[''a''] = filter (\<lambda>x. os_open demo_os (path_join demo_os ''T'' x) \<noteq> None) [''a'']"
    unfolding r2 .
  then have "filter (\<lambda>x. os_open demo_os (path_join demo_os ''T'' x) \<noteq> None) [''a''] = [''a'']"
    by (rule sym)
  with eq cache_ok_empty [of demo_os] demo_TT_attrs show ?thesis by (intro conjI)
qed

text \<open>
  Claim C9 as stated fails.  Directory \<^verbatim>\<open>S\<close> compared with itself: all four entries can
  be stat'd, and yet \<open>common_funny\<close> holds the named pipe, \<open>funny_files\<close> holds the
  regular file that cannot be opened, and that common file is not in \<open>same_files\<close>.
\<close>

theorem self_comparison_counterexample:
  "fst (dircmp_attrs demo_os (dircmp_init ''S'' ''S'' None None) fmempty) =
   Inr \<lparr>left_list = [''f'', ''locked'', ''p'', ''sub''],
        right_list = [''f'', ''locked'', ''p'', ''sub''],
        common = [''f'', ''locked'', ''p'', ''sub''], left_only = [], right_only = [],
        common_dirs = [''sub''], common_files = [''f'', ''locked''], common_funny = [''p''],
        same_files = [''f''], diff_files = [], funny_files = [''locked'']\<rparr>
   \<and> os_stat demo_os ''S/f'' = Some (reg_file 2 1)
   \<and> os_stat demo_os ''S/locked'' = Some (reg_file 1 1)
   \<and> os_stat demo_os ''S/p'' = Some fifo
   \<and> os_stat demo_os ''S/sub'' = Some directory"
proof -
  have "fst (dircmp_attrs demo_os (dircmp_init ''S'' ''S'' None None) fmempty) =
   Inr \<lparr>left_list = [''f'', ''locked'', ''p'', ''sub''],
        right_list = [''f'', ''locked'', ''p'', ''sub''],
        common = [''f'', ''locked'', ''p'', ''sub''], left_only = [], right_only = [],
        common_dirs = [''sub''], common_files = [''f'', ''locked''], common_funny = [''p''],
        same_files = [''f''], diff_files = [], funny_files = [''locked'']\<rparr>"
    by (rule dircmp_attrs_eval [OF demo_SS_phase0 demo_SS_phase1 demo_SS_phase2 demo_SS_phase3])
  moreover have "os_stat demo_os ''S/f'' = Some (reg_file 2 1)"
    "os_stat demo_os ''S/locked'' = Some (reg_file 1 1)"
    "os_stat demo_os ''S/p'' = Some fifo" "os_stat demo_os ''S/sub'' = Some directory"
    by (simp_all add: demo_os_def demo_stat_def)
  ultimately show ?thesis by (intro conjI)
qed

end
